theory Spec2Isabelle
  imports Complex_Main "HOL-Library.Log_Nat"
begin

section \<open>JavaScript numbers\<close>

text \<open>
  A \<^verbatim>\<open>number\<close> is an IEEE 754 binary64 value: a finite double, held as the rational it
  denotes, an infinity or NaN. The sign of zero is not kept (no operation of the modelled
  code tells the two zeros apart once its guards have passed).
\<close>

datatype sign = Pos | Neg

datatype jsnum = Num rat | Infinity sign | NaN

text \<open>
  \<open>ilog2 x\<close> is the binary exponent of a positive \<open>x\<close>: \<open>2 powi ilog2 x \<le> x < 2 powi (ilog2 x + 1)\<close>.
\<close>

definition ilog2 :: "rat \<Rightarrow> int" where
  "ilog2 x = (if 1 \<le> x then bitlen \<lfloor>x\<rfloor> - 1 else - bitlen (\<lceil>1 / x\<rceil> - 1))"

text \<open>
  The exponent of the unit in the last place of the double nearest to \<open>x\<close>: 53
  significant bits, and the fixed spacing \<open>2 powi (-1074)\<close> of the subnormal range below
  \<open>2 powi (-1022)\<close>.
\<close>

definition ulp_exp :: "rat \<Rightarrow> int" where
  "ulp_exp x = max (ilog2 \<bar>x\<bar>) (- 1022) - 52"

text \<open>The nearest integer, a tie going to the even one.\<close>

definition round_even :: "rat \<Rightarrow> int" where
  "round_even m =
     (let f = \<lfloor>m\<rfloor>; r = m - of_int f
      in if r < 1 / 2 then f else if 1 / 2 < r then f + 1 else if even f then f else f + 1)"

text \<open>Rounding to nearest, ties to even, with an unbounded exponent above.\<close>

definition round64 :: "rat \<Rightarrow> rat" where
  "round64 x = (if x = 0 then 0 else of_int (round_even (x / 2 powi ulp_exp x)) * 2 powi ulp_exp x)"

text \<open>The double that an exact result \<open>x\<close> is delivered as; it overflows to an infinity.\<close>

definition js_num :: "rat \<Rightarrow> jsnum" where
  "js_num x =
     (let r = round64 x
      in if 2 ^ 1024 \<le> r then Infinity Pos else if r \<le> - (2 ^ 1024) then Infinity Neg else Num r)"

text \<open>An integer literal of a JSON text, as \<^verbatim>\<open>JSON.parse\<close> delivers it.\<close>

definition js_int :: "int \<Rightarrow> jsnum" where
  "js_int n = js_num (of_int n)"

definition flip :: "sign \<Rightarrow> sign" where
  "flip s = (case s of Pos \<Rightarrow> Neg | Neg \<Rightarrow> Pos)"

definition sign_of :: "rat \<Rightarrow> sign" where
  "sign_of x = (if x < 0 then Neg else Pos)"

definition sign_mul :: "sign \<Rightarrow> sign \<Rightarrow> sign" where
  "sign_mul s t = (if s = t then Pos else Neg)"

fun js_neg :: "jsnum \<Rightarrow> jsnum" where
  "js_neg (Num a) = Num (- a)"
| "js_neg (Infinity s) = Infinity (flip s)"
| "js_neg NaN = NaN"

fun js_add :: "jsnum \<Rightarrow> jsnum \<Rightarrow> jsnum" where
  "js_add (Num a) (Num b) = js_num (a + b)"
| "js_add (Num a) (Infinity t) = Infinity t"
| "js_add (Infinity s) (Num b) = Infinity s"
| "js_add (Infinity s) (Infinity t) = (if s = t then Infinity s else NaN)"
| "js_add NaN b = NaN"
| "js_add a NaN = NaN"

definition js_sub :: "jsnum \<Rightarrow> jsnum \<Rightarrow> jsnum" where
  "js_sub a b = js_add a (js_neg b)"

fun js_mul :: "jsnum \<Rightarrow> jsnum \<Rightarrow> jsnum" where
  "js_mul (Num a) (Num b) = js_num (a * b)"
| "js_mul (Num a) (Infinity t) = (if a = 0 then NaN else Infinity (sign_mul (sign_of a) t))"
| "js_mul (Infinity s) (Num b) = (if b = 0 then NaN else Infinity (sign_mul s (sign_of b)))"
| "js_mul (Infinity s) (Infinity t) = Infinity (sign_mul s t)"
| "js_mul NaN b = NaN"
| "js_mul a NaN = NaN"

fun js_div :: "jsnum \<Rightarrow> jsnum \<Rightarrow> jsnum" where
  "js_div (Num a) (Num b) =
     (if b = 0 then (if a = 0 then NaN else Infinity (sign_of a)) else js_num (a / b))"
| "js_div (Num a) (Infinity t) = Num 0"
| "js_div (Infinity s) (Num b) = Infinity (sign_mul s (sign_of b))"
| "js_div (Infinity s) (Infinity t) = NaN"
| "js_div NaN b = NaN"
| "js_div a NaN = NaN"

text \<open>The comparison \<^verbatim>\<open>a <= b\<close>: false when either side is NaN.\<close>

fun js_le :: "jsnum \<Rightarrow> jsnum \<Rightarrow> bool" where
  "js_le (Num a) (Num b) = (a \<le> b)"
| "js_le (Num a) (Infinity t) = (t = Pos)"
| "js_le (Infinity s) (Num b) = (s = Neg)"
| "js_le (Infinity s) (Infinity t) = (s = t \<or> s = Neg)"
| "js_le NaN b = False"
| "js_le a NaN = False"

text \<open>The comparison \<^verbatim>\<open>a > b\<close>: false when either side is NaN.\<close>

fun js_gt :: "jsnum \<Rightarrow> jsnum \<Rightarrow> bool" where
  "js_gt (Num a) (Num b) = (b < a)"
| "js_gt (Num a) (Infinity t) = (t = Neg)"
| "js_gt (Infinity s) (Num b) = (s = Pos)"
| "js_gt (Infinity s) (Infinity t) = (s = Pos \<and> t = Neg)"
| "js_gt NaN b = False"
| "js_gt a NaN = False"

text \<open>\<^verbatim>\<open>Math.min(a, b)\<close>: NaN when either argument is.\<close>

definition js_min :: "jsnum \<Rightarrow> jsnum \<Rightarrow> jsnum" where
  "js_min a b = (if a = NaN \<or> b = NaN then NaN else if js_le a b then a else b)"

text \<open>\<^verbatim>\<open>Math.round\<close>: the nearest integer, a tie going up.\<close>

fun js_round :: "jsnum \<Rightarrow> jsnum" where
  "js_round (Num a) = Num (of_int \<lfloor>a + 1 / 2\<rfloor>)"
| "js_round (Infinity s) = Infinity s"
| "js_round NaN = NaN"

text \<open>
  The decimal digits of a natural number, and the text a template literal makes of the
  result of \<^verbatim>\<open>Math.round\<close> (an integer, an infinity or NaN; for an integer of 22 digits
  or more JavaScript writes an exponent instead, which is not spelled out here).
\<close>

fun show_nat :: "nat \<Rightarrow> string" where
  "show_nat n =
     (if n < 10 then [''0123456789'' ! n] else show_nat (n div 10) @ [''0123456789'' ! (n mod 10)])"

declare show_nat.simps [simp del]

fun show_rounded :: "jsnum \<Rightarrow> string" where
  "show_rounded (Num a) = (if a < 0 then ''-'' else []) @ show_nat (nat \<bar>\<lfloor>a\<rfloor>\<bar>)"
| "show_rounded (Infinity s) = (case s of Pos \<Rightarrow> ''Infinity'' | Neg \<Rightarrow> ''-Infinity'')"
| "show_rounded NaN = ''NaN''"

section \<open>StudentList: two-step delete\<close>

text \<open>
  The component state of \<^verbatim>\<open>StudentList\<close> that \<^verbatim>\<open>handleDelete\<close> reads and writes.
  A student row is an untyped object in the source; only its \<^verbatim>\<open>id\<close> is read by
  \<^verbatim>\<open>handleDelete\<close> (field \<open>sid\<close> here, since \<open>id\<close> is the identity function of HOL).
\<close>

record student =
  sid :: int
  is_active :: bool

record student_list =
  students :: "student list"
  deleteLoading :: "int option"
  deleteConfirm :: "int option"

text \<open>
  What one run of the handler asks of the outside world: a timer whose callback is
  \<^verbatim>\<open>setDeleteConfirm(null)\<close>, or the HTTP request \<^verbatim>\<open>api.delete(`/students/${id}`)\<close>.
\<close>

datatype sl_effect = SetTimeoutClearConfirm nat | ApiDelete int

text \<open>
  \<^verbatim>\<open>handleDelete(id)\<close> up to its \<^verbatim>\<open>await\<close>. The comparison reads the \<^verbatim>\<open>deleteConfirm\<close> of
  the render the handler was created in.
\<close>

definition handleDelete :: "int \<Rightarrow> student_list \<Rightarrow> student_list \<times> sl_effect list" where
  "handleDelete i s =
     (if deleteConfirm s \<noteq> Some i
      then (s\<lparr>deleteConfirm := Some i\<rparr>, [SetTimeoutClearConfirm 3000])
      else (s\<lparr>deleteLoading := Some i\<rparr>, [ApiDelete i]))"

text \<open>
  The rest of \<^verbatim>\<open>handleDelete(id)\<close>, run when the request settles: \<open>ok\<close> is whether
  \<^verbatim>\<open>api.delete\<close> resolved (the \<^verbatim>\<open>try\<close> body goes on) or rejected (the \<^verbatim>\<open>catch\<close>
  logs); \<^verbatim>\<open>finally\<close> clears \<^verbatim>\<open>deleteLoading\<close> on both paths.
\<close>

definition handleDelete_settled :: "int \<Rightarrow> bool \<Rightarrow> student_list \<Rightarrow> student_list" where
  "handleDelete_settled i ok s =
     (let s1 = (if ok
                then s\<lparr>students := filter (\<lambda>x. sid x \<noteq> i) (students s), deleteConfirm := None\<rparr>
                else s)
      in s1\<lparr>deleteLoading := None\<rparr>)"

text \<open>The timer's callback, \<^verbatim>\<open>() => setDeleteConfirm(null)\<close>.\<close>

definition clearConfirm :: "student_list \<Rightarrow> student_list" where
  "clearConfirm s = s\<lparr>deleteConfirm := None\<rparr>"

text \<open>
  What can happen to the mounted component: a click on a row's delete button, a timer
  firing, a request settling. \<open>sl_run\<close> threads the state through a list of such
  events and collects the effects in order.
\<close>

datatype sl_event = Click int | TimerFired | Settled int bool

fun sl_step :: "sl_event \<Rightarrow> student_list \<Rightarrow> student_list \<times> sl_effect list" where
  "sl_step (Click i) s = handleDelete i s"
| "sl_step TimerFired s = (clearConfirm s, [])"
| "sl_step (Settled i ok) s = (handleDelete_settled i ok s, [])"

fun sl_run :: "sl_event list \<Rightarrow> student_list \<Rightarrow> student_list \<times> sl_effect list" where
  "sl_run [] s = (s, [])"
| "sl_run (e # es) s =
     (let (s1, out1) = sl_step e s; (s2, out2) = sl_run es s1 in (s2, out1 @ out2))"

definition sl_init :: "student list \<Rightarrow> student_list" where
  "sl_init xs = \<lparr>students = xs, deleteLoading = None, deleteConfirm = None\<rparr>"

definition clicks :: "int \<Rightarrow> sl_event list \<Rightarrow> nat" where
  "clicks i es = length (filter (\<lambda>e. e = Click i) es)"

section \<open>AttendancePage: the live session\<close>

subsection \<open>Protocol records\<close>

text \<open>
  The per-face record of a server reply (\<^verbatim>\<open>interface DetectedFace\<close>). A
  \<^verbatim>\<open>number\<close> field is any JavaScript number: \<^verbatim>\<open>JSON.parse\<close> delivers a finite double
  or, for a literal beyond the range of the doubles such as \<^verbatim>\<open>1e400\<close>, an infinity.
  The fields of \<^verbatim>\<open>bbox\<close> are prefixed, the one-letter names being variables everywhere.
  An object of the reply may carry more than the interface names: the functions below
  take any extension \<open>'a DetectedFace_scheme\<close> of the record, \<open>'a\<close> being the rest of the
  object.
\<close>

record bbox =
  bbox_x :: jsnum
  bbox_y :: jsnum
  bbox_w :: jsnum
  bbox_h :: jsnum

record DetectedFace =
  name :: string
  confidence :: jsnum
  marked :: bool
  confirmed :: bool
  bbox :: bbox
  frames_confirmed :: jsnum
  frames_required :: jsnum

text \<open>
  An entry of the session log (\<^verbatim>\<open>interface MarkedStudent\<close>, fields \<^verbatim>\<open>name\<close> and
  \<^verbatim>\<open>time\<close>, prefixed here to keep them apart from the face's).
\<close>

record MarkedStudent =
  ms_name :: string
  ms_time :: string

text \<open>
  What \<^verbatim>\<open>ws.onmessage\<close> makes of \<^verbatim>\<open>event.data\<close>: \<^verbatim>\<open>JSON.parse\<close> throws (\<open>Malformed\<close>;
  a text that parses to \<^verbatim>\<open>null\<close> throws one line later, at \<^verbatim>\<open>data.detected\<close>, inside the same
  \<^verbatim>\<open>try\<close>), or yields an object whose \<^verbatim>\<open>detected\<close> field is absent or falsy
  (\<open>Reply None\<close>) or, as the interface declares it, a list of face records.
\<close>

datatype 'a ws_data = Malformed | Reply "'a DetectedFace_scheme list option"

subsection \<open>Browser objects\<close>

datatype ready_state = CONNECTING | OPEN | CLOSING | CLOSED

datatype media_state = Live | Ended

type_synonym image = "nat list"

record video =
  srcObject :: "nat option"

record canvas =
  width :: nat
  height :: nat
  has_context :: bool
  content :: image

text \<open>
  The value of \<^verbatim>\<open>canvas.toDataURL(type, quality)\<close>: the encoding is the browser's, so the
  URL is kept as what it encodes. The quality is the literal of the call as a fraction
  (\<^verbatim>\<open>0.7\<close> is \<open>7/10\<close>).
\<close>

record data_url =
  mime :: string
  quality :: rat
  img_width :: nat
  img_height :: nat
  pixels :: image

definition toDataURL :: "canvas \<Rightarrow> string \<Rightarrow> rat \<Rightarrow> data_url" where
  "toDataURL c ty q =
     \<lparr>mime = ty, quality = q, img_width = width c, img_height = height c, pixels = content c\<rparr>"

subsection \<open>Component state\<close>

text \<open>
  The refs and the state variables of \<^verbatim>\<open>AttendancePage\<close>, with the browser objects they
  point to. A ref to a socket, a stream or a timer holds a handle (a timer handle is a
  positive integer in a browser, so a non-null handle is truthy); \<open>sockets\<close>,
  \<open>streams\<close> and \<open>intervals\<close> are the objects behind the handles, \<open>intervals\<close> giving
  the period of each timer that has not been cleared (the callback of every timer of this
  page is \<^verbatim>\<open>sendFrame\<close>). \<open>outbox\<close> lists every \<^verbatim>\<open>ws.send\<close> in order, with its socket;
  \<open>sounds\<close> counts the calls of \<^verbatim>\<open>playSuccessSound\<close>.
\<close>

record 'a page =
  videoRef :: "video option"
  canvasRef :: "canvas option"
  streamRef :: "nat option"
  wsRef :: "nat option"
  intervalRef :: "nat option"
  isCameraActive :: bool
  wsConnected :: bool
  detected :: "'a DetectedFace_scheme list"
  markedStudents :: "MarkedStudent list"
  sessionStart :: "string option"
  error :: "string option"
  sockets :: "nat \<Rightarrow> ready_state option"
  streams :: "nat \<Rightarrow> media_state list option"
  intervals :: "nat \<Rightarrow> nat option"
  next_handle :: nat
  outbox :: "(nat \<times> data_url) list"
  sounds :: nat

subsection \<open>connectWS and the message handler\<close>

text \<open>
  The updater passed to \<^verbatim>\<open>setMarkedStudents\<close> for a face \<open>f\<close>, \<open>now\<close> being
  \<^verbatim>\<open>new Date().toLocaleTimeString()\<close>.
\<close>

definition add_marked :: "'a DetectedFace_scheme \<Rightarrow> string \<Rightarrow> MarkedStudent list \<Rightarrow> MarkedStudent list" where
  "add_marked f now prev =
     (if list_ex (\<lambda>s. ms_name s = name f) prev then prev
      else \<lparr>ms_name = name f, ms_time = now\<rparr> # prev)"

text \<open>The body of \<^verbatim>\<open>faces.forEach\<close>.\<close>

definition on_face :: "string \<Rightarrow> 'a DetectedFace_scheme \<Rightarrow> 'a page \<Rightarrow> 'a page" where
  "on_face now f s =
     (if marked f
      then s\<lparr>sounds := Suc (sounds s), markedStudents := add_marked f now (markedStudents s)\<rparr>
      else s)"

text \<open>
  \<^verbatim>\<open>ws.onmessage\<close>: a parse error is caught and ignored; \<^verbatim>\<open>data.detected || []\<close> reads
  an absent field as no faces.
\<close>

definition onmessage :: "'a ws_data \<Rightarrow> string \<Rightarrow> 'a page \<Rightarrow> 'a page" where
  "onmessage d now s =
     (case d of
        Malformed \<Rightarrow> s
      | Reply fs \<Rightarrow>
          (let faces = (case fs of None \<Rightarrow> [] | Some l \<Rightarrow> l)
           in fold (on_face now) faces (s\<lparr>detected := faces\<rparr>)))"

text \<open>\<^verbatim>\<open>connectWS\<close>: a new socket, connecting, stored in \<^verbatim>\<open>wsRef\<close>.\<close>

definition connectWS :: "'a page \<Rightarrow> 'a page" where
  "connectWS s =
     (let h = next_handle s
      in s\<lparr>sockets := (sockets s)(h \<mapsto> CONNECTING), next_handle := Suc h, wsRef := Some h\<rparr>)"

subsection \<open>startSession, stopSession, sendFrame\<close>

definition camera_error :: string where
  "camera_error = ''Failed to access camera. Please check permissions.''"

text \<open>
  \<^verbatim>\<open>startSession\<close>, its two \<^verbatim>\<open>await\<close>s taken as a whole: \<open>gum\<close> is the outcome of
  \<^verbatim>\<open>getUserMedia\<close> (the tracks of the stream, or \<open>None\<close> when it rejects), \<open>play_ok\<close>
  whether \<^verbatim>\<open>video.play()\<close> resolves, \<open>now\<close> the clock.
\<close>

definition startSession :: "media_state list option \<Rightarrow> bool \<Rightarrow> string \<Rightarrow> 'a page \<Rightarrow> 'a page" where
  "startSession gum play_ok now s =
     (let s0 = s\<lparr>error := None, detected := []\<rparr>
      in case gum of
           None \<Rightarrow> s0\<lparr>error := Some camera_error\<rparr>
         | Some tracks \<Rightarrow>
             (let h = next_handle s0;
                  s1 = s0\<lparr>streams := (streams s0)(h \<mapsto> tracks), next_handle := Suc h,
                          streamRef := Some h\<rparr>
              in case videoRef s1 of
                   None \<Rightarrow> s1
                 | Some v \<Rightarrow>
                     (let s2 = s1\<lparr>videoRef := Some (v\<lparr>srcObject := Some h\<rparr>)\<rparr>
                      in if \<not> play_ok then s2\<lparr>error := Some camera_error\<rparr>
                         else
                           (let s3 = connectWS (s2\<lparr>isCameraActive := True, sessionStart := Some now\<rparr>);
                                i = next_handle s3
                            in s3\<lparr>intervals := (intervals s3)(i \<mapsto> 1500), next_handle := Suc i,
                                  intervalRef := Some i\<rparr>))))"

text \<open>\<^verbatim>\<open>ws.close()\<close> on a socket: one that is open or connecting starts closing.\<close>

definition close_socket :: "ready_state \<Rightarrow> ready_state" where
  "close_socket r = (case r of CONNECTING \<Rightarrow> CLOSING | OPEN \<Rightarrow> CLOSING | CLOSING \<Rightarrow> CLOSING | CLOSED \<Rightarrow> CLOSED)"

definition stopSession :: "'a page \<Rightarrow> 'a page" where
  "stopSession s =
     (let s1 = (case intervalRef s of
                  None \<Rightarrow> s
                | Some i \<Rightarrow> s\<lparr>intervals := (intervals s)(i := None), intervalRef := None\<rparr>);
          s2 = (case wsRef s1 of
                  None \<Rightarrow> s1
                | Some w \<Rightarrow> s1\<lparr>sockets := (sockets s1)(w := map_option close_socket (sockets s1 w)),
                              wsRef := None\<rparr>);
          s3 = (case streamRef s2 of
                  None \<Rightarrow> s2
                | Some h \<Rightarrow> s2\<lparr>streams := (streams s2)(h := map_option (map (\<lambda>t. Ended)) (streams s2 h)),
                              streamRef := None\<rparr>);
          s4 = (case videoRef s3 of
                  None \<Rightarrow> s3
                | Some v \<Rightarrow> s3\<lparr>videoRef := Some (v\<lparr>srcObject := None\<rparr>)\<rparr>)
      in s4\<lparr>isCameraActive := False, wsConnected := False, detected := []\<rparr>)"

text \<open>
  \<^verbatim>\<open>sendFrame\<close>, \<open>img\<close> being the picture the video shows when \<^verbatim>\<open>drawImage\<close> runs. Each
  guard of the source returns with nothing done.
\<close>

definition sendFrame :: "image \<Rightarrow> 'a page \<Rightarrow> 'a page" where
  "sendFrame img s =
     (case wsRef s of
        None \<Rightarrow> s
      | Some w \<Rightarrow>
          if sockets s w \<noteq> Some OPEN then s
          else
            (case videoRef s of
               None \<Rightarrow> s
             | Some v \<Rightarrow>
                 (case canvasRef s of
                    None \<Rightarrow> s
                  | Some c \<Rightarrow>
                      if \<not> has_context c then s
                      else
                        (let c1 = c\<lparr>width := 640, height := 480, content := img\<rparr>;
                             dataUrl = toDataURL c1 ''image/jpeg'' (7 / 10)
                         in s\<lparr>canvasRef := Some c1, outbox := outbox s @ [(w, dataUrl)]\<rparr>))))"

subsection \<open>The page as an event system\<close>

text \<open>
  The events the page reacts to. A timer that was cleared does not fire; a socket
  dispatches \<^verbatim>\<open>message\<close> only while it is open, \<^verbatim>\<open>open\<close> only from connecting.
\<close>

datatype 'a page_event =
    Tick nat image
  | SocketOpened nat
  | SocketClosed nat
  | SocketError nat
  | Message nat "'a ws_data" string
  | StartSession "media_state list option" bool string
  | StopSession

fun page_step :: "'a page_event \<Rightarrow> 'a page \<Rightarrow> 'a page" where
  "page_step (Tick i img) s = (if intervals s i = None then s else sendFrame img s)"
| "page_step (SocketOpened w) s =
     (if sockets s w = Some CONNECTING
      then s\<lparr>sockets := (sockets s)(w \<mapsto> OPEN), wsConnected := True\<rparr> else s)"
| "page_step (SocketClosed w) s =
     (if sockets s w = None \<or> sockets s w = Some CLOSED then s
      else s\<lparr>sockets := (sockets s)(w \<mapsto> CLOSED), wsConnected := False\<rparr>)"
| "page_step (SocketError w) s =
     (if sockets s w = None then s else s\<lparr>wsConnected := False\<rparr>)"
| "page_step (Message w d now) s =
     (if sockets s w = Some OPEN then onmessage d now s else s)"
| "page_step (StartSession gum play_ok now) s = startSession gum play_ok now s"
| "page_step StopSession s = stopSession s"

definition page_run :: "'a page_event list \<Rightarrow> 'a page \<Rightarrow> 'a page" where
  "page_run es s = fold page_step es s"

definition is_tick :: "'a page_event \<Rightarrow> bool" where
  "is_tick e = (case e of Tick i img \<Rightarrow> True | _ \<Rightarrow> False)"

definition is_start :: "'a page_event \<Rightarrow> bool" where
  "is_start e = (case e of StartSession g p n \<Rightarrow> True | _ \<Rightarrow> False)"

text \<open>The page as mounted: refs to the rendered video and canvas, nothing else.\<close>

definition page_init :: "'a page" where
  "page_init =
     \<lparr>videoRef = Some \<lparr>srcObject = None\<rparr>,
      canvasRef = Some \<lparr>width = 640, height = 480, has_context = True, content = []\<rparr>,
      streamRef = None, wsRef = None, intervalRef = None,
      isCameraActive = False, wsConnected = False, detected = [], markedStudents = [],
      sessionStart = None, error = None,
      sockets = Map.empty, streams = Map.empty, intervals = Map.empty, next_handle = 1,
      outbox = [], sounds = 0\<rparr>"

subsection \<open>Vocabulary for the statements about the page\<close>

text \<open>The message \<^verbatim>\<open>sendFrame\<close> sends for the picture \<open>img\<close>.\<close>

definition jpeg_frame :: "image \<Rightarrow> data_url" where
  "jpeg_frame img =
     \<lparr>mime = ''image/jpeg'', quality = 7 / 10, img_width = 640, img_height = 480, pixels = img\<rparr>"

definition jpeg_640_480 :: "data_url \<Rightarrow> bool" where
  "jpeg_640_480 u = (mime u = ''image/jpeg'' \<and> img_width u = 640 \<and> img_height u = 480)"

text \<open>An event that, if it is a message, is a message on socket \<open>w\<close>.\<close>

definition msg_on :: "nat \<Rightarrow> 'a page_event \<Rightarrow> bool" where
  "msg_on w e = (case e of Message v d now \<Rightarrow> v = w | _ \<Rightarrow> True)"

text \<open>Every live timer of the page has the period of \<^verbatim>\<open>startSession\<close>'s \<^verbatim>\<open>setInterval\<close>.\<close>

definition period_ok :: "'a page \<Rightarrow> bool" where
  "period_ok s = (\<forall>i p. intervals s i = Some p \<longrightarrow> p = 1500)"

text \<open>No socket is referenced, and socket \<open>w\<close> is neither open nor about to be.\<close>

definition torn_down :: "nat \<Rightarrow> 'a page \<Rightarrow> bool" where
  "torn_down w s = (wsRef s = None \<and> sockets s w \<noteq> Some OPEN \<and> sockets s w \<noteq> Some CONNECTING)"

text \<open>
  A sample session: the camera starts (stream 1, socket 2, timer 3), the socket opens,
  two frames go out, and the server reports Alice as newly marked in two replies.
\<close>

definition alice :: DetectedFace where
  "alice = \<lparr>name = ''Alice'', confidence = Num (7 / 8), marked = True, confirmed = True,
            bbox = \<lparr>bbox_x = Num 10, bbox_y = Num 20, bbox_w = Num 100, bbox_h = Num 120\<rparr>,
            frames_confirmed = Num 5, frames_required = Num 5\<rparr>"

definition demo_session :: "unit page_event list" where
  "demo_session =
     [StartSession (Some [Live]) True ''09:00:00'', SocketOpened 2, Tick 3 [1, 2, 3],
      Message 2 (Reply (Some [alice])) ''09:00:02'', Tick 3 [4, 5, 6],
      Message 2 (Reply (Some [alice])) ''09:00:03'']"

text \<open>What may still happen after the sample session was stopped.\<close>

definition after_stop :: "unit page_event list" where
  "after_stop =
     [Tick 3 [7, 8, 9], Message 2 (Reply (Some [alice\<lparr>name := ''Bob''\<rparr>])) ''09:00:05'',
      SocketClosed 2, Tick 3 [7, 8, 9]]"

section \<open>AttendancePage: the overlay\<close>

text \<open>The calls the overlay effect makes on the 2D context of the overlay canvas.\<close>

datatype canvas_op =
    SetStrokeStyle string
  | SetLineWidth jsnum
  | StrokeRect jsnum jsnum jsnum jsnum
  | SetFont string
  | SetFillStyle string
  | BeginPath
  | RoundRect jsnum jsnum jsnum jsnum jsnum
  | Fill
  | FillText string jsnum jsnum

text \<open>\<^verbatim>\<open>detected.some((d) => d.confirmed)\<close> and the colour it gives the guide oval.\<close>

definition hasConfirmed :: "'a DetectedFace_scheme list \<Rightarrow> bool" where
  "hasConfirmed ds = list_ex confirmed ds"

definition guide_stroke :: "'a DetectedFace_scheme list \<Rightarrow> string" where
  "guide_stroke ds =
     (if hasConfirmed ds then ''#10b981''
      else if 0 < length ds then ''#fbbf24'' else ''rgba(255, 255, 255, 0.7)'')"

text \<open>
  The fraction of the confirmation bar, \<^verbatim>\<open>Math.min(d.frames_confirmed / d.frames_required, 1)\<close>.
\<close>

definition progress :: "'a DetectedFace_scheme \<Rightarrow> jsnum" where
  "progress d = js_min (js_div (frames_confirmed d) (frames_required d)) (Num 1)"

text \<open>
  The confirmation progress bar of a face whose scaled box is \<open>bx by' bw bh\<close>: drawn
  under the guard of the source, and not at all otherwise.
\<close>

definition progress_bar ::
  "'a DetectedFace_scheme \<Rightarrow> jsnum \<Rightarrow> jsnum \<Rightarrow> jsnum \<Rightarrow> jsnum \<Rightarrow> canvas_op list" where
  "progress_bar d bx by' bw bh =
     (if \<not> confirmed d \<and> js_gt (frames_required d) (Num 0)
      then
        (let barW = bw; barH = Num 4; barY = js_add (js_add by' bh) (Num 6)
         in [SetFillStyle ''rgba(255,255,255,0.25)'', BeginPath,
             RoundRect bx barY barW barH (Num 2), Fill,
             SetFillStyle ''#8b5cf6'', BeginPath,
             RoundRect bx barY (js_mul barW (progress d)) barH (Num 2), Fill])
      else [])"

text \<open>The label of a face, \<^verbatim>\<open>`${d.name}  ${Math.round(d.confidence * 100)}%`\<close>.\<close>

definition labelText :: "'a DetectedFace_scheme \<Rightarrow> string" where
  "labelText d =
     name d @ ''  '' @ show_rounded (js_round (js_mul (confidence d) (Num 100))) @ ''%''"

text \<open>
  The body of \<^verbatim>\<open>detected.forEach\<close> in the overlay effect. \<open>measureText font text\<close> is the
  width \<^verbatim>\<open>ctx.measureText\<close> reports, \<open>ow\<close> is \<^verbatim>\<open>overlay.width\<close>, \<open>scaleX\<close> and \<open>scaleY\<close>
  the ratios of the displayed video to the 640 x 480 frame.
\<close>

definition draw_face ::
  "(string \<Rightarrow> string \<Rightarrow> jsnum) \<Rightarrow> jsnum \<Rightarrow> jsnum \<Rightarrow> jsnum \<Rightarrow> 'a DetectedFace_scheme \<Rightarrow> canvas_op list" where
  "draw_face measureText ow scaleX scaleY d =
     (let bx = js_mul (bbox_x (bbox d)) scaleX;
          by' = js_mul (bbox_y (bbox d)) scaleY;
          bw = js_mul (bbox_w (bbox d)) scaleX;
          bh = js_mul (bbox_h (bbox d)) scaleY;
          font = ''700 '' @ show_rounded (js_round (js_mul ow (js_num (22 / 1000))))
                   @ ''px Inter, system-ui, sans-serif'';
          lw = js_add (measureText font (labelText d)) (Num 16);
          lh = Num 26;
          lx = bx;
          ly = js_sub (js_sub by' lh) (Num 4)
      in [SetStrokeStyle (if confirmed d then ''#10b981'' else ''#8b5cf6''),
          SetLineWidth (Num 2),
          StrokeRect bx by' bw bh,
          SetFont font,
          SetFillStyle (if confirmed d then ''rgba(16, 185, 129, 0.85)'' else ''rgba(139, 92, 246, 0.85)''),
          BeginPath, RoundRect lx ly lw lh (Num 6), Fill,
          SetFillStyle ''#ffffff'',
          FillText (labelText d) (js_add lx (Num 8)) (js_add ly (Num 18))]
         @ progress_bar d bx by' bw bh)"

text \<open>Two objects that agree on every field the interface names.\<close>

definition same_fields :: "'a DetectedFace_scheme \<Rightarrow> 'b DetectedFace_scheme \<Rightarrow> bool" where
  "same_fields f g =
     (name f = name g \<and> confidence f = confidence g \<and> marked f = marked g
      \<and> confirmed f = confirmed g
      \<and> bbox_x (bbox f) = bbox_x (bbox g) \<and> bbox_y (bbox f) = bbox_y (bbox g)
      \<and> bbox_w (bbox f) = bbox_w (bbox g) \<and> bbox_h (bbox f) = bbox_h (bbox g)
      \<and> frames_confirmed f = frames_confirmed g \<and> frames_required f = frames_required g)"

text \<open>A face on its way to confirmation, and a text measure of eight pixels a character.\<close>

definition carol :: DetectedFace where
  "carol = \<lparr>name = ''Carol'', confidence = Num (3 / 4), marked = False, confirmed = False,
            bbox = \<lparr>bbox_x = Num 10, bbox_y = Num 40, bbox_w = Num 100, bbox_h = Num 120\<rparr>,
            frames_confirmed = Num 3, frames_required = Num 5\<rparr>"

definition measure8 :: "string \<Rightarrow> string \<Rightarrow> jsnum" where
  "measure8 font text = Num (8 * of_nat (length text))"

section \<open>AttendanceHistoryPage: the attendance rate\<close>

text \<open>
  A day of the history (\<^verbatim>\<open>interface DailyAttendance\<close>; its \<^verbatim>\<open>students\<close> list is not read
  by the rate). The counts are integers of the JSON reply.
\<close>

record DailyAttendance =
  date :: string
  day_name :: string
  present_count :: int
  absent_count :: int

definition getAttendanceRate :: "DailyAttendance \<Rightarrow> jsnum" where
  "getAttendanceRate day =
     (let total = js_add (js_int (present_count day)) (js_int (absent_count day))
      in if js_gt total (Num 0)
         then js_round (js_mul (js_div (js_int (present_count day)) total) (Num 100))
         else Num 0)"

text \<open>A day with 23 of 40 students present.\<close>

definition day_23_of_40 :: DailyAttendance where
  "day_23_of_40 = \<lparr>date = ''2026-01-12'', day_name = ''Monday'', present_count = 23, absent_count = 17\<rparr>"

section \<open>The confirmation engine of the server\<close>

text \<open>
  The server that answers the frames (the identity matcher, the liveness gate, the
  per-track confirmation state machine and the session controller) is not among the
  source files; the definitions of this section follow the text of the specification
  (its sections 3, 4.4 to 4.7 and 6), and what is proved of them is proved of that
  text. Numbers are exact rationals here.
\<close>

type_synonym identity = nat

datatype track_state = DETECTED | VERIFYING | CONFIRMED | REJECTED

text \<open>
  Modelled from the spec: the fixed thresholds of the engine, which the specification
  names without giving values: the match threshold, the liveness pass threshold, the
  number of consecutive liveness failures that forces REJECTED, the length of the
  cool-down, the number of frames without a detection after which a track is evicted,
  and the rejection distance of the matcher.
\<close>

record engine =
  match_threshold :: rat
  liveness_pass :: rat
  hysteresis :: nat
  cooldown :: nat
  max_missed :: nat
  rejection :: rat

text \<open>
  Modelled from the spec: what one frame tells about one track, after detection,
  matching and liveness scoring: the best identity (\<open>None\<close> is "Unknown"), its
  confidence, and the liveness score.
\<close>

record observation =
  best :: "identity option"
  conf :: rat
  liveness :: rat

text \<open>
  Modelled from the spec: the identity matcher of section 4.4, given the distances of the
  face's embedding to the gallery entries, in gallery order. The entry of least distance
  wins, a tie going to the entry matched on the preceding frame (\<open>prev\<close>) and else to the
  first; a least distance beyond the rejection distance, or an empty gallery, gives
  Unknown. The confidence is 1 at distance 0 and falls linearly to 0 at the rejection
  distance.
\<close>

fun nearest :: "identity option \<Rightarrow> (identity \<times> rat) list \<Rightarrow> (identity \<times> rat) option" where
  "nearest prev [] = None"
| "nearest prev ((i, d) # g) =
     (case nearest prev g of
        None \<Rightarrow> Some (i, d)
      | Some (j, e) \<Rightarrow>
          if d < e then Some (i, d)
          else if e < d then Some (j, e)
          else if prev = Some j then Some (j, e) else Some (i, d))"

definition confidence_of :: "engine \<Rightarrow> rat \<Rightarrow> rat" where
  "confidence_of p d = (if rejection p \<le> d then 0 else 1 - d / rejection p)"

definition match_face :: "engine \<Rightarrow> identity option \<Rightarrow> (identity \<times> rat) list \<Rightarrow> identity option \<times> rat" where
  "match_face p prev g =
     (case nearest prev g of
        None \<Rightarrow> (None, 0)
      | Some (i, d) \<Rightarrow> (if rejection p < d then None else Some i, confidence_of p d))"

text \<open>
  Modelled from the spec: the TrackedFace of section 3, with the fields the state machine
  reads and writes (prefixed, the client's record having fields of the same names): state,
  best-matched identity, \<open>frames_confirmed\<close>, \<open>frames_required\<close>, the count of consecutive
  liveness failures, the count of passing frames of a running cool-down, and the number of
  frames since the track was last detected.
\<close>

record TrackedFace =
  t_state :: track_state
  t_identity :: "identity option"
  t_frames_confirmed :: nat
  t_frames_required :: nat
  t_liveness_failures :: nat
  t_cooldown :: nat
  t_missed :: nat

definition new_track :: "nat \<Rightarrow> TrackedFace" where
  "new_track n =
     \<lparr>t_state = DETECTED, t_identity = None, t_frames_confirmed = 0, t_frames_required = n,
      t_liveness_failures = 0, t_cooldown = 0, t_missed = 0\<rparr>"

definition live :: "engine \<Rightarrow> observation \<Rightarrow> bool" where
  "live p ob = (liveness_pass p < liveness ob)"

text \<open>
  Modelled from the spec: one frame of one track (sections 4.5 to 4.7). The liveness
  gate counts consecutive failures first, and a count that reaches the hysteresis count
  forces a DETECTED or VERIFYING track to REJECTED. Otherwise: DETECTED moves to
  VERIFYING with \<open>frames_confirmed = 1\<close> on a confidence at or above the match threshold
  for the current best identity, in a frame whose liveness passes (section 4.6 lets a
  track towards CONFIRMED only while its liveness score is above the pass threshold, and
  the frame counted here is the first of the run that property P2 asks for); VERIFYING
  counts a frame whose best identity is unchanged, whose confidence is at or above the
  threshold and whose liveness passes, and is CONFIRMED once the count reaches
  \<open>frames_required\<close>, while any other frame takes it back to DETECTED with the count at
  0; CONFIRMED is terminal; REJECTED is frozen until the cool-down has run with passing
  liveness, and then resets to DETECTED.
\<close>

definition track_step :: "engine \<Rightarrow> TrackedFace \<Rightarrow> observation \<Rightarrow> TrackedFace" where
  "track_step p t ob =
     (let fails = (if live p ob then 0 else t_liveness_failures t + 1);
          t1 = t\<lparr>t_identity := best ob, t_liveness_failures := fails, t_missed := 0\<rparr>;
          rejected = t1\<lparr>t_state := REJECTED, t_frames_confirmed := 0, t_cooldown := 0\<rparr>;
          detected = t1\<lparr>t_state := DETECTED, t_frames_confirmed := 0, t_cooldown := 0\<rparr>
      in case t_state t of
           CONFIRMED \<Rightarrow> t\<lparr>t_liveness_failures := fails, t_missed := 0\<rparr>
         | REJECTED \<Rightarrow>
             if live p ob
             then (if cooldown p \<le> t_cooldown t + 1 then detected
                   else t1\<lparr>t_cooldown := t_cooldown t + 1\<rparr>)
             else t1\<lparr>t_cooldown := 0\<rparr>
         | DETECTED \<Rightarrow>
             if hysteresis p \<le> fails then rejected
             else if best ob \<noteq> None \<and> match_threshold p \<le> conf ob \<and> live p ob
             then t1\<lparr>t_state := VERIFYING, t_frames_confirmed := 1\<rparr>
             else detected
         | VERIFYING \<Rightarrow>
             if hysteresis p \<le> fails then rejected
             else if best ob \<noteq> None \<and> best ob = t_identity t \<and> match_threshold p \<le> conf ob
                     \<and> live p ob
             then (if t_frames_required t \<le> t_frames_confirmed t + 1
                   then t1\<lparr>t_state := CONFIRMED, t_frames_confirmed := t_frames_confirmed t + 1\<rparr>
                   else t1\<lparr>t_frames_confirmed := t_frames_confirmed t + 1\<rparr>)
             else detected)"

text \<open>A track over the frames it is detected in, from its creation.\<close>

definition track_run :: "engine \<Rightarrow> nat \<Rightarrow> observation list \<Rightarrow> TrackedFace" where
  "track_run p n obs = foldl (track_step p) (new_track n) obs"

text \<open>
  Modelled from the spec: the per-face record of a reply (section 6) and the mark event
  handed to the recorder.
\<close>

record face_report =
  r_identity :: "identity option"
  r_confidence :: rat
  r_marked :: bool
  r_confirmed :: bool
  r_frames_confirmed :: nat
  r_frames_required :: nat

datatype mark_event = Mark identity

text \<open>
  Modelled from the spec: the session of section 3: the track table, the identities
  already marked, the closed flag.
\<close>

record session =
  tracks :: "nat \<Rightarrow> TrackedFace option"
  marked_ids :: "identity list"
  closed :: bool

definition new_session :: session where
  "new_session = \<lparr>tracks = Map.empty, marked_ids = [], closed = False\<rparr>"

text \<open>
  Modelled from the spec: one detection of a frame, already associated with the track
  key \<open>k\<close> (a key without a track allocates one). On the frame where the track first
  reaches CONFIRMED its identity is marked and one event is emitted, unless the identity
  is marked already.
\<close>

definition process_detection ::
  "engine \<Rightarrow> nat \<Rightarrow> nat \<times> observation \<Rightarrow> session \<times> mark_event list \<times> face_report list
     \<Rightarrow> session \<times> mark_event list \<times> face_report list" where
  "process_detection p n det acc =
     (let (k, ob) = det; (s, events, reports) = acc;
          t = (case tracks s k of None \<Rightarrow> new_track n | Some t0 \<Rightarrow> t0);
          t1 = track_step p t ob;
          fresh = (t_state t \<noteq> CONFIRMED \<and> t_state t1 = CONFIRMED
                   \<and> (case t_identity t1 of None \<Rightarrow> False | Some i \<Rightarrow> i \<notin> set (marked_ids s)));
          report = \<lparr>r_identity = t_identity t1, r_confidence = conf ob, r_marked = fresh,
                    r_confirmed = (t_state t1 = CONFIRMED),
                    r_frames_confirmed = t_frames_confirmed t1,
                    r_frames_required = t_frames_required t1\<rparr>;
          s1 = s\<lparr>tracks := (tracks s)(k \<mapsto> t1)\<rparr>
      in case t_identity t1 of
           Some i \<Rightarrow>
             if fresh then (s1\<lparr>marked_ids := i # marked_ids s\<rparr>, events @ [Mark i], reports @ [report])
             else (s1, events, reports @ [report])
         | None \<Rightarrow> (s1, events, reports @ [report]))"

text \<open>
  Modelled from the spec: a track that was not detected in the frame ages by one frame and
  is evicted beyond \<open>max_missed\<close>.
\<close>

definition age_tracks :: "engine \<Rightarrow> nat list \<Rightarrow> (nat \<Rightarrow> TrackedFace option) \<Rightarrow> (nat \<Rightarrow> TrackedFace option)" where
  "age_tracks p seen tb =
     (\<lambda>k. case tb k of
            None \<Rightarrow> None
          | Some t \<Rightarrow>
              if k \<in> set seen then Some t
              else if max_missed p < t_missed t + 1 then None
              else Some (t\<lparr>t_missed := t_missed t + 1\<rparr>))"

text \<open>
  Modelled from the spec: one frame of a session: its detections in order, then the
  ageing of the tracks it did not detect. A closed session processes nothing.
\<close>

definition process_frame ::
  "engine \<Rightarrow> nat \<Rightarrow> (nat \<times> observation) list \<Rightarrow> session \<Rightarrow> session \<times> mark_event list \<times> face_report list" where
  "process_frame p n dets s =
     (if closed s then (s, [], [])
      else
        (let (s1, events, reports) = fold (process_detection p n) dets (s, [], [])
         in (s1\<lparr>tracks := age_tracks p (map fst dets) (tracks s1)\<rparr>, events, reports)))"

text \<open>A session over a list of frames: the final session and all the events emitted.\<close>

fun process_frames ::
  "engine \<Rightarrow> nat \<Rightarrow> (nat \<times> observation) list list \<Rightarrow> session \<Rightarrow> session \<times> mark_event list" where
  "process_frames p n [] s = (s, [])"
| "process_frames p n (dets # rest) s =
     (let (s1, events, reports) = process_frame p n dets s;
          (s2, later) = process_frames p n rest s1
      in (s2, events @ later))"

text \<open>
  A frame that counts for identity \<open>i\<close>: it has \<open>i\<close> as its best identity at a
  confidence at or above the match threshold.
\<close>

definition counts_for :: "engine \<Rightarrow> identity \<Rightarrow> observation \<Rightarrow> bool" where
  "counts_for p i ob = (best ob = Some i \<and> match_threshold p \<le> conf ob)"

text \<open>
  The engine and the frames of the scenarios of the specification: five frames required,
  match threshold 0.6; Alice is identity 1.
\<close>

definition scenario_engine :: engine where
  "scenario_engine =
     \<lparr>match_threshold = 6 / 10, liveness_pass = 1 / 2, hysteresis = 3, cooldown = 5,
      max_missed = 10, rejection = 1\<rparr>"

definition sighting :: "identity \<Rightarrow> rat \<Rightarrow> rat \<Rightarrow> observation" where
  "sighting i c l = \<lparr>best = Some i, conf = c, liveness = l\<rparr>"

definition unknown_face :: "rat \<Rightarrow> observation" where
  "unknown_face l = \<lparr>best = None, conf = 0, liveness = l\<rparr>"

text \<open>
  What a track has behind it while it verifies identity \<open>i\<close> over the frames \<open>obs\<close>: the
  last \<open>frames_confirmed\<close> frames all count for \<open>i\<close> and pass liveness. What a confirmed
  track has behind it: somewhere in its frames, \<open>n\<close> frames in a row that all count for
  its identity and pass liveness.
\<close>

definition verifying_for :: "engine \<Rightarrow> observation list \<Rightarrow> TrackedFace \<Rightarrow> bool" where
  "verifying_for p obs t =
     (\<exists>i pre w. t_identity t = Some i \<and> obs = pre @ w \<and> length w = t_frames_confirmed t
        \<and> 1 \<le> t_frames_confirmed t
        \<and> list_all (counts_for p i) w \<and> list_all (live p) w)"

definition confirmed_by :: "engine \<Rightarrow> nat \<Rightarrow> observation list \<Rightarrow> TrackedFace \<Rightarrow> bool" where
  "confirmed_by p n obs t =
     (\<exists>i pre w post. t_identity t = Some i \<and> obs = pre @ w @ post \<and> length w = n
        \<and> list_all (counts_for p i) w \<and> list_all (live p) w)"

definition track_inv :: "engine \<Rightarrow> nat \<Rightarrow> observation list \<Rightarrow> TrackedFace \<Rightarrow> bool" where
  "track_inv p n obs t =
     (t_frames_required t = n \<and> (t_state t = VERIFYING \<longrightarrow> verifying_for p obs t)
      \<and> (t_state t = CONFIRMED \<longrightarrow> confirmed_by p n obs t))"

text \<open>No track of the session is verifying or confirmed.\<close>

definition quiet :: "session \<Rightarrow> bool" where
  "quiet s = (\<forall>k t. tracks s k = Some t \<longrightarrow> t_state t = DETECTED \<or> t_state t = REJECTED)"

definition unknown_report :: "face_report \<Rightarrow> bool" where
  "unknown_report r = (r_identity r = None \<and> \<not> r_marked r \<and> \<not> r_confirmed r)"

text \<open>
  Scenario frames: Alice seen four times with passing liveness, and once more; and five
  frames of Alice of which the first has a failing liveness score.
\<close>

definition four_frames :: "observation list" where
  "four_frames =
     [sighting 1 (65 / 100) (9 / 10), sighting 1 (7 / 10) (9 / 10), sighting 1 (8 / 10) (9 / 10),
      sighting 1 (75 / 100) (9 / 10)]"

definition fifth_frame :: observation where
  "fifth_frame = sighting 1 (9 / 10) (9 / 10)"

definition noisy_start :: "observation list" where
  "noisy_start =
     [sighting 1 (65 / 100) (1 / 10), sighting 1 (7 / 10) (9 / 10), sighting 1 (8 / 10) (9 / 10),
      sighting 1 (75 / 100) (9 / 10), sighting 1 (9 / 10) (9 / 10)]"

text \<open>
  Three frames of a session with an empty gallery, two faces in view; and the distances
  of a face to a gallery of two, both beyond the rejection distance.
\<close>

definition unknown_frames :: "(nat \<times> observation) list list" where
  "unknown_frames =
     [[(0, unknown_face (9 / 10)), (1, unknown_face (9 / 10))],
      [(0, unknown_face (1 / 10)), (1, unknown_face (9 / 10))],
      [(0, unknown_face (9 / 10))]]"

definition far_gallery :: "(identity \<times> rat) list" where
  "far_gallery = [(1, 3 / 2), (2, 2)]"

section \<open>Theorems\<close>

subsection \<open>Rounding to a double\<close>

lemma powi_nat: "0 \<le> k \<Longrightarrow> (2::rat) powi k = 2 ^ nat k"
  by (simp add: power_int_def)

lemma int_le_pow_rat: "(n::int) \<le> 2 ^ k \<Longrightarrow> (of_int n :: rat) \<le> 2 ^ k"
proof -
  assume "n \<le> 2 ^ k"
  then have "(of_int n :: rat) \<le> of_int (2 ^ k)" by (simp only: of_int_le_iff)
  then show ?thesis by simp
qed

lemma pow_le_int_rat: "2 ^ k \<le> (n::int) \<Longrightarrow> (2::rat) ^ k \<le> of_int n"
proof -
  assume "2 ^ k \<le> n"
  then have "(of_int (2 ^ k) :: rat) \<le> of_int n" by (simp only: of_int_le_iff)
  then show ?thesis by simp
qed

lemma ilog2_bounds_ge1:
  assumes "1 \<le> x"
  shows "2 powi ilog2 x \<le> x \<and> x < 2 powi (ilog2 x + 1)"
proof -
  let ?n = "\<lfloor>x\<rfloor>"
  have n: "0 < ?n" using assms by simp
  from bitlen_bounds [OF n] have b: "2 ^ nat (bitlen ?n - 1) \<le> ?n" "?n < 2 ^ nat (bitlen ?n)"
    by simp_all
  have k: "1 \<le> bitlen ?n" using n by (simp add: bitlen_alt_def)
  have e: "ilog2 x = bitlen ?n - 1" using assms by (simp add: ilog2_def)
  have "(2::rat) ^ nat (bitlen ?n - 1) \<le> of_int ?n" using b(1) by (rule pow_le_int_rat)
  also have "\<dots> \<le> x" by simp
  finally have lo: "2 powi ilog2 x \<le> x" using k e by (simp add: powi_nat)
  have "?n + 1 \<le> 2 ^ nat (bitlen ?n)" using b(2) by simp
  then have "(of_int (?n + 1) :: rat) \<le> 2 ^ nat (bitlen ?n)" by (rule int_le_pow_rat)
  moreover have "x < of_int (?n + 1)" by linarith
  ultimately have "x < 2 ^ nat (bitlen ?n)" by (rule less_le_trans [rotated])
  then have hi: "x < 2 powi (ilog2 x + 1)" using k e by (simp add: powi_nat)
  from lo hi show ?thesis ..
qed

lemma ilog2_bounds_lt1:
  assumes "0 < x" "x < 1"
  shows "2 powi ilog2 x \<le> x \<and> x < 2 powi (ilog2 x + 1)"
proof -
  let ?n = "\<lceil>1 / x\<rceil>"
  let ?k = "bitlen (?n - 1)"
  have inv: "1 < 1 / x" using assms by simp
  then have n: "0 < ?n - 1" by linarith
  from bitlen_bounds [OF n] have b: "2 ^ nat (?k - 1) \<le> ?n - 1" "?n - 1 < 2 ^ nat ?k"
    by simp_all
  have k: "1 \<le> ?k" using n by (simp add: bitlen_alt_def)
  have e: "ilog2 x = - ?k" using assms by (simp add: ilog2_def)
  have "?n \<le> 2 ^ nat ?k" using b(2) by simp
  then have "(of_int ?n :: rat) \<le> 2 ^ nat ?k" by (rule int_le_pow_rat)
  moreover have "1 / x \<le> of_int ?n" by (rule le_of_int_ceiling)
  ultimately have "1 / x \<le> 2 ^ nat ?k" by (rule order_trans [rotated])
  then have "1 \<le> 2 ^ nat ?k * x" using assms by (simp add: field_simps)
  then have "1 / 2 ^ nat ?k \<le> x" by (simp add: field_simps)
  then have lo: "2 powi ilog2 x \<le> x"
    using k e by (simp add: power_int_def field_simps)
  have "(2::rat) ^ nat (?k - 1) \<le> of_int (?n - 1)" using b(1) by (rule pow_le_int_rat)
  moreover have "of_int (?n - 1) < 1 / x" by linarith
  ultimately have "2 ^ nat (?k - 1) < 1 / x" by (rule le_less_trans)
  then have "x * 2 ^ nat (?k - 1) < 1" using assms by (simp add: field_simps)
  then have h: "x < 1 / 2 ^ nat (?k - 1)" by (simp add: field_simps)
  have "ilog2 x + 1 = - (?k - 1)" using e by simp
  moreover have "(2::rat) powi (- (?k - 1)) = 1 / 2 ^ nat (?k - 1)"
    using k by (simp add: power_int_def field_simps)
  ultimately have hi: "x < 2 powi (ilog2 x + 1)" using h by simp
  from lo hi show ?thesis ..
qed

lemma ilog2_bounds: "0 < x \<Longrightarrow> 2 powi ilog2 x \<le> x \<and> x < 2 powi (ilog2 x + 1)"
  using ilog2_bounds_ge1 [of x] ilog2_bounds_lt1 [of x] by (cases "1 \<le> x") simp_all

lemma powi_mono: "a \<le> b \<Longrightarrow> (2::rat) powi a \<le> 2 powi b"
  by (rule power_int_increasing) simp_all

lemma powi_less_imp: "(2::rat) powi a < 2 powi b \<Longrightarrow> a < b"
  using powi_mono [of b a] by (cases "a < b") simp_all

lemma ilog2_unique:
  assumes "0 < x" "2 powi e \<le> x" "x < 2 powi (e + 1)"
  shows "ilog2 x = e"
proof -
  from ilog2_bounds [OF assms(1)] have b: "2 powi ilog2 x \<le> x" "x < 2 powi (ilog2 x + 1)" by simp_all
  have "(2::rat) powi e < 2 powi (ilog2 x + 1)" using assms(2) b(2) by simp
  then have 1: "e < ilog2 x + 1" by (rule powi_less_imp)
  have "(2::rat) powi ilog2 x < 2 powi (e + 1)" using assms(3) b(1) by simp
  then have 2: "ilog2 x < e + 1" by (rule powi_less_imp)
  from 1 2 show ?thesis by simp
qed


lemma round_even_cases:
  "round_even m = \<lfloor>m\<rfloor> \<and> m - of_int \<lfloor>m\<rfloor> \<le> 1 / 2
   \<or> round_even m = \<lfloor>m\<rfloor> + 1 \<and> 1 / 2 \<le> m - of_int \<lfloor>m\<rfloor>"
  by (auto simp: round_even_def Let_def)

lemma round_even_err: "\<bar>of_int (round_even m) - m\<bar> \<le> 1 / 2"
proof -
  have "of_int \<lfloor>m\<rfloor> \<le> m" "m < of_int \<lfloor>m\<rfloor> + 1" by linarith+
  with round_even_cases [of m] show ?thesis by auto
qed

lemma round_even_le: "m \<le> of_int k \<Longrightarrow> round_even m \<le> k"
proof -
  assume a: "m \<le> of_int k"
  then have f: "\<lfloor>m\<rfloor> \<le> k" by (simp add: floor_le_iff) 
  show ?thesis
  proof (cases "\<lfloor>m\<rfloor> = k")
    case True
    then have "m = of_int k" using a by linarith
    then show ?thesis by (simp add: round_even_def)
  next
    case False
    with f have "\<lfloor>m\<rfloor> + 1 \<le> k" by simp
    with round_even_cases [of m] show ?thesis by auto
  qed
qed

lemma round_even_ge: "of_int k \<le> m \<Longrightarrow> k \<le> round_even m"
proof -
  assume "of_int k \<le> m"
  then have "k \<le> \<lfloor>m\<rfloor>" by (simp add: le_floor_iff)
  with round_even_cases [of m] show ?thesis by auto
qed

lemma round_even_int [simp]: "round_even (of_int k) = k"
  by (simp add: round_even_def)


lemma powi_pos [simp]: "0 < (2::rat) powi k"
  by (simp add: power_int_def)

lemma powi_add: "(2::rat) powi (a + b) = 2 powi a * 2 powi b"
  by (simp add: power_int_add)

lemma powi_split: "(2::rat) powi a = 2 powi (a - b) * 2 powi b"
  using powi_add [of "a - b" b] by simp

lemma ulp_exp_ge: "- 1074 \<le> ulp_exp x"
  by (simp add: ulp_exp_def)

lemma ulp_exp_normal: "j < ulp_exp x \<Longrightarrow> - 1074 \<le> j \<Longrightarrow> ulp_exp x = ilog2 \<bar>x\<bar> - 52"
  by (simp add: ulp_exp_def max_def split: if_splits)

lemma dyadic_int:
  assumes "e \<le> j"
  shows "of_int k * (2::rat) powi j = of_int (k * 2 ^ nat (j - e)) * 2 powi e"
proof -
  have "(2::rat) powi j = 2 powi (j - e) * 2 powi e" by (rule powi_split)
  moreover have "(2::rat) powi (j - e) = 2 ^ nat (j - e)" using assms by (simp add: powi_nat)
  ultimately show ?thesis by simp
qed

lemma dyadic_small:
  assumes "0 < k" "k < 2 ^ 53" "j < e - 52"
  shows "of_int k * (2::rat) powi j < 2 powi e"
proof -
  have "(of_int k :: rat) < 2 ^ 53" using assms(2)
    by (metis of_int_less_iff of_int_numeral of_int_power)
  then have "of_int k * (2::rat) powi j < 2 ^ 53 * 2 powi j" by simp
  also have "\<dots> = 2 powi (53 + j)" by (simp add: powi_add)
  also have "\<dots> \<le> 2 powi e" using assms(3) by (intro powi_mono) simp
  finally show ?thesis .
qed

lemma round64_le_dyadic:
  assumes "0 < x" "x \<le> of_int k * 2 powi j" "0 < k" "k < 2 ^ 53" "- 1074 \<le> j"
  shows "round64 x \<le> of_int k * 2 powi j"
proof (cases "ulp_exp x \<le> j")
  case True
  let ?u = "(2::rat) powi ulp_exp x"
  let ?K = "k * 2 ^ nat (j - ulp_exp x)"
  have c: "of_int k * (2::rat) powi j = of_int ?K * ?u" using True by (rule dyadic_int)
  with assms(2) have "x / ?u \<le> of_int ?K" by (simp add: field_simps)
  then have "round_even (x / ?u) \<le> ?K" by (rule round_even_le)
  then have "(of_int (round_even (x / ?u)) :: rat) \<le> of_int ?K" by (simp only: of_int_le_iff)
  then have "of_int (round_even (x / ?u)) * ?u \<le> of_int ?K * ?u"
    by (rule mult_right_mono) simp
  moreover have "round64 x = of_int (round_even (x / ?u)) * ?u"
    using assms(1) by (simp add: round64_def)
  ultimately show ?thesis by (simp only: c)
next
  case False
  then have e: "ulp_exp x = ilog2 x - 52"
    using assms(1,5) ulp_exp_normal [of j x] by simp
  with False have "j < ilog2 x - 52" by simp
  from dyadic_small [OF assms(3,4) this] have "of_int k * (2::rat) powi j < 2 powi ilog2 x" .
  also have "\<dots> \<le> x" using ilog2_bounds [OF assms(1)] by simp
  finally show ?thesis using assms(2) by simp
qed

lemma round64_normal_ge:
  assumes "0 < x" "ulp_exp x = ilog2 x - 52"
  shows "2 powi ilog2 x \<le> round64 x"
proof -
  let ?u = "(2::rat) powi ulp_exp x"
  have "(2::rat) powi ilog2 x = of_int (1 * 2 ^ nat (ilog2 x - ulp_exp x)) * ?u"
    using dyadic_int [of "ulp_exp x" "ilog2 x" 1] assms(2) by simp
  then have p: "(2::rat) powi ilog2 x = of_int (2 ^ 52) * ?u" using assms(2) by simp
  have "2 powi ilog2 x \<le> x" using ilog2_bounds [OF assms(1)] by simp
  with p have "of_int (2 ^ 52) \<le> x / ?u" by (simp add: field_simps)
  then have "2 ^ 52 \<le> round_even (x / ?u)" by (rule round_even_ge)
  then have "(of_int (2 ^ 52) :: rat) \<le> of_int (round_even (x / ?u))" by (simp only: of_int_le_iff)
  then have "of_int (2 ^ 52) * ?u \<le> of_int (round_even (x / ?u)) * ?u"
    by (rule mult_right_mono) simp
  moreover have "round64 x = of_int (round_even (x / ?u)) * ?u"
    using assms(1) by (simp add: round64_def)
  ultimately show ?thesis by (simp only: p)
qed

lemma round64_ge_dyadic:
  assumes "0 < k" "k < 2 ^ 53" "- 1074 \<le> j" "of_int k * 2 powi j \<le> x"
  shows "of_int k * 2 powi j \<le> round64 x"
proof -
  have "0 < of_int k * (2::rat) powi j" using assms(1) by simp
  with assms(4) have x: "0 < x" by simp
  show ?thesis
  proof (cases "ulp_exp x \<le> j")
    case True
    let ?u = "(2::rat) powi ulp_exp x"
    let ?K = "k * 2 ^ nat (j - ulp_exp x)"
    have c: "of_int k * (2::rat) powi j = of_int ?K * ?u" using True by (rule dyadic_int)
    with assms(4) have "of_int ?K \<le> x / ?u" by (simp add: field_simps)
    then have "?K \<le> round_even (x / ?u)" by (rule round_even_ge)
    then have "(of_int ?K :: rat) \<le> of_int (round_even (x / ?u))" by (simp only: of_int_le_iff)
    then have "of_int ?K * ?u \<le> of_int (round_even (x / ?u)) * ?u"
      by (rule mult_right_mono) simp
    moreover have "round64 x = of_int (round_even (x / ?u)) * ?u"
      using x by (simp add: round64_def)
    ultimately show ?thesis by (simp only: c)
  next
    case False
    then have e: "ulp_exp x = ilog2 x - 52"
      using assms(3) x ulp_exp_normal [of j x] by simp
    with False have "j < ilog2 x - 52" by simp
    from dyadic_small [OF assms(1,2) this] have "of_int k * (2::rat) powi j < 2 powi ilog2 x" .
    also have "\<dots> \<le> round64 x" using x e by (rule round64_normal_ge)
    finally show ?thesis by simp
  qed
qed

lemma round64_nonneg: "0 \<le> x \<Longrightarrow> 0 \<le> round64 x"
proof -
  assume "0 \<le> x"
  then have "0 \<le> x / 2 powi ulp_exp x" by simp
  then have "of_int 0 \<le> x / 2 powi ulp_exp x" by simp
  then have "0 \<le> round_even (x / 2 powi ulp_exp x)" by (rule round_even_ge)
  then show ?thesis by (simp add: round64_def)
qed

lemma round64_rel_err:
  assumes "2 powi (- 1022) \<le> x"
  shows "\<bar>round64 x - x\<bar> \<le> x / 2 ^ 53"
proof -
  have x: "0 < x" using assms powi_pos [of "- 1022"] by linarith
  from ilog2_bounds [OF x] have b: "2 powi ilog2 x \<le> x" "x < 2 powi (ilog2 x + 1)" by simp_all
  have "(2::rat) powi (- 1022) < 2 powi (ilog2 x + 1)" using assms b(2) by simp
  then have "- 1022 < ilog2 x + 1" by (rule powi_less_imp)
  then have e: "ulp_exp x = ilog2 x - 53 + 1" using x by (simp add: ulp_exp_def)
  let ?u = "(2::rat) powi ulp_exp x"
  let ?n = "round_even (x / ?u)"
  have u: "?u = 2 * 2 powi (ilog2 x - 53)" using e powi_add [of "ilog2 x - 53" 1] by simp
  have "(2::rat) powi ilog2 x = 2 powi (ilog2 x - 53) * 2 ^ 53"
    using powi_add [of "ilog2 x - 53" 53] by simp
  with b(1) have h: "2 powi (ilog2 x - 53) \<le> x / 2 ^ 53" by (simp add: field_simps)
  have "round64 x - x = (of_int ?n - x / ?u) * ?u" using x by (simp add: round64_def field_simps)
  then have "\<bar>round64 x - x\<bar> = \<bar>of_int ?n - x / ?u\<bar> * ?u" by (simp add: abs_mult)
  also have "\<dots> \<le> 1 / 2 * ?u" using round_even_err [of "x / ?u"] by (intro mult_right_mono) simp_all
  also have "\<dots> = 2 powi (ilog2 x - 53)" using u by simp
  also have "\<dots> \<le> x / 2 ^ 53" by (rule h)
  finally show ?thesis .
qed

lemma round64_int:
  assumes "0 \<le> n" "n \<le> 2 ^ 53"
  shows "round64 (of_int n) = of_int n"
proof -
  consider "n = 0" | "0 < n" "n < 2 ^ 53" | "n = 2 ^ 53" using assms by linarith
  then show ?thesis
  proof cases
    case 1
    then show ?thesis by (simp add: round64_def)
  next
    case 2
    have x: "(0::rat) < of_int n" using 2(1) by simp
    have e: "(of_int n :: rat) = of_int n * 2 powi 0" by simp
    have "round64 (of_int n) \<le> of_int n * 2 powi 0"
      by (rule round64_le_dyadic [OF x _ 2]) simp_all
    moreover have "of_int n * 2 powi 0 \<le> round64 (of_int n)"
      by (rule round64_ge_dyadic [OF 2]) simp_all
    ultimately show ?thesis by simp
  next
    case 3
    have e: "(of_int n :: rat) = of_int 1 * 2 powi 53" using 3 by (simp add: powi_nat)
    have x: "(0::rat) < of_int n" using 3 by simp
    have "round64 (of_int n) \<le> of_int 1 * 2 powi 53"
      by (rule round64_le_dyadic [OF x]) (simp_all add: e)
    moreover have "of_int 1 * 2 powi 53 \<le> round64 (of_int n)"
      by (rule round64_ge_dyadic) (simp_all add: e)
    ultimately show ?thesis using e by simp
  qed
qed

lemma js_num_Num: "- (2 ^ 1024) < round64 x \<Longrightarrow> round64 x < 2 ^ 1024 \<Longrightarrow> js_num x = Num (round64 x)"
  by (simp add: js_num_def Let_def)

lemma big: "(2::rat) ^ 53 < 2 ^ 1024" "(100::rat) < 2 ^ 1024" "(1::rat) < 2 ^ 1024"
  by simp_all

lemma js_int_safe: "0 \<le> n \<Longrightarrow> n \<le> 2 ^ 53 \<Longrightarrow> js_int n = Num (of_int n)"
proof -
  assume a: "0 \<le> n" "n \<le> 2 ^ 53"
  then have r: "round64 (of_int n) = of_int n" by (rule round64_int)
  have "(of_int n :: rat) \<le> 2 ^ 53" using a(2) by (rule int_le_pow_rat)
  then have "(of_int n :: rat) < 2 ^ 1024" using big(1) by linarith
  moreover have "- (2 ^ 1024) < (of_int n :: rat)" using a(1) by (simp add: less_le_trans [of _ 0])
  ultimately show ?thesis unfolding js_int_def using r by (simp add: js_num_Num)
qed

lemma round64_unit:
  assumes "0 \<le> x" "x \<le> 1"
  shows "0 \<le> round64 x \<and> round64 x \<le> 1"
proof (cases "x = 0")
  case True
  then show ?thesis by (simp add: round64_def)
next
  case False
  with assms have x: "0 < x" by simp
  have "round64 x \<le> of_int 1 * 2 powi 0"
    by (rule round64_le_dyadic [OF x]) (use assms in simp_all)
  with round64_nonneg [OF assms(1)] show ?thesis by simp
qed

lemma round64_le_100:
  assumes "0 \<le> x" "x \<le> 100"
  shows "0 \<le> round64 x \<and> round64 x \<le> 100"
proof (cases "x = 0")
  case True
  then show ?thesis by (simp add: round64_def)
next
  case False
  with assms have x: "0 < x" by simp
  have "round64 x \<le> of_int 100 * 2 powi 0"
    by (rule round64_le_dyadic [OF x]) (use assms in simp_all)
  with round64_nonneg [OF assms(1)] show ?thesis by simp
qed


lemma round_even_near:
  assumes "\<bar>m - of_int f\<bar> < 1 / 2"
  shows "round_even m = f"
proof -
  have "\<bar>of_int (round_even m) - m\<bar> \<le> 1 / 2" by (rule round_even_err)
  with assms have "\<bar>rat_of_int (round_even m) - of_int f\<bar> < 1" by linarith
  then have "\<bar>rat_of_int (round_even m - f)\<bar> < 1" by simp
  then have "\<bar>round_even m - f\<bar> < 1" by (metis of_int_abs of_int_less_1_iff)
  then show ?thesis by simp
qed

lemma round64_near:
  assumes "0 < x" "2 powi e \<le> x" "x < 2 powi (e + 1)" "- 1022 \<le> e"
    and "\<bar>x / 2 powi (e - 52) - of_int n\<bar> < 1 / 2"
  shows "round64 x = of_int n * 2 powi (e - 52)"
proof -
  have "ilog2 x = e" using assms(1-3) by (rule ilog2_unique)
  then have u: "ulp_exp x = e - 52" using assms(1,4) by (simp add: ulp_exp_def)
  have "round_even (x / 2 powi (e - 52)) = n" using assms(5) by (rule round_even_near)
  then show ?thesis using assms(1) u by (simp add: round64_def)
qed

lemmas powi_eval = power_int_def power_divide

lemma js_num_cases:
  "js_num x = Num (round64 x) \<and> round64 x < 2 ^ 1024
   \<or> js_num x = Infinity Pos \<and> 2 ^ 1024 \<le> round64 x
   \<or> js_num x = Infinity Neg \<and> round64 x \<le> - (2 ^ 1024)"
  by (auto simp: js_num_def Let_def)

lemma js_min_one:
  "js_min (js_num x) (Num 1) \<noteq> NaN \<and> js_le (js_min (js_num x) (Num 1)) (Num 1)"
  using js_num_cases [of x] by (auto simp: js_min_def)

lemma round64_ge_1: "1 \<le> x \<Longrightarrow> 1 \<le> round64 x"
proof -
  assume "1 \<le> x"
  then have "of_int 1 * 2 powi 0 \<le> x" by simp
  then have "of_int 1 * 2 powi 0 \<le> round64 x" by (rule round64_ge_dyadic [rotated 3]) simp_all
  then show ?thesis by simp
qed

lemma js_min_full: "1 \<le> x \<Longrightarrow> js_min (js_num x) (Num 1) = Num 1"
  using js_num_cases [of x] round64_ge_1 [of x] big(3)
  by (auto simp: js_min_def)

lemma js_num_numeral [simp]:
  "numeral k \<le> (2::int) ^ 53 \<Longrightarrow> js_num (numeral k) = Num (numeral k)"
  using js_int_safe [of "numeral k"] by (simp add: js_int_def)

lemma js_num_0 [simp]: "js_num 0 = Num 0"
  using js_int_safe [of 0] by (simp add: js_int_def)

lemma js_num_1 [simp]: "js_num 1 = Num 1"
  using js_int_safe [of 1] by (simp add: js_int_def)

lemma floor_int_half: "\<lfloor>rat_of_int k + 1 / 2\<rfloor> = k"
  by linarith

lemma js_round_int: "js_round (Num (of_int k)) = Num (of_int k)"
  by (simp add: floor_int_half)

lemma js_round_numeral [simp]: "js_round (Num (numeral k)) = Num (numeral k)"
  using js_round_int [of "numeral k"] by (simp del: js_round.simps)

lemma show_nat_digit: "n < 10 \<Longrightarrow> show_nat n = [''0123456789'' ! n]"
  by (simp add: show_nat.simps)

lemma show_nat_more: "10 \<le> n \<Longrightarrow> show_nat n = show_nat (n div 10) @ [''0123456789'' ! (n mod 10)]"
  by (subst show_nat.simps) simp

lemma show_75: "show_nat 75 = ''75''"
  by (simp add: show_nat_digit show_nat_more)


lemma floor_numeral_div [simp]: "\<lfloor>numeral a / numeral b :: rat\<rfloor> = numeral a div numeral b"
  using floor_divide_of_int_eq [of "numeral a" "numeral b", where ?'a = rat] by simp

lemmas show_eval = show_nat_digit show_nat_more

subsection \<open>The page: frames of the operations\<close>

lemmas page_eval = page_run_def page_init_def startSession_def connectWS_def sendFrame_def
  stopSession_def onmessage_def on_face_def add_marked_def toDataURL_def alice_def
  demo_session_def Let_def close_socket_def jpeg_frame_def

lemma sendFrame_cases:
  "sendFrame img s = s \<or>
   (\<exists>w v c. wsRef s = Some w \<and> sockets s w = Some OPEN \<and> videoRef s = Some v
      \<and> canvasRef s = Some c \<and> has_context c
      \<and> sendFrame img s =
          s\<lparr>canvasRef := Some (c\<lparr>width := 640, height := 480, content := img\<rparr>),
            outbox := outbox s @ [(w, jpeg_frame img)]\<rparr>)"
  by (auto simp: sendFrame_def toDataURL_def jpeg_frame_def Let_def split: option.splits)

lemma outbox_sendFrame:
  "outbox (sendFrame img s) = outbox s \<or> (\<exists>w. outbox (sendFrame img s) = outbox s @ [(w, jpeg_frame img)])"
  using sendFrame_cases [of img s] by auto

lemma outbox_fold_on_face [simp]: "outbox (fold (on_face now) fs s) = outbox s"
  by (induction fs arbitrary: s) (simp_all add: on_face_def)

lemma intervals_fold_on_face [simp]: "intervals (fold (on_face now) fs s) = intervals s"
  by (induction fs arbitrary: s) (simp_all add: on_face_def)

lemma wsRef_fold_on_face [simp]: "wsRef (fold (on_face now) fs s) = wsRef s"
  by (induction fs arbitrary: s) (simp_all add: on_face_def)

lemma sockets_fold_on_face [simp]: "sockets (fold (on_face now) fs s) = sockets s"
  by (induction fs arbitrary: s) (simp_all add: on_face_def)

lemma outbox_onmessage [simp]: "outbox (onmessage d now s) = outbox s"
  by (cases d) (simp_all add: onmessage_def Let_def)

lemma outbox_startSession [simp]: "outbox (startSession gum play_ok now s) = outbox s"
  by (simp add: startSession_def connectWS_def Let_def split: option.splits)

lemma outbox_stopSession [simp]: "outbox (stopSession s) = outbox s"
  by (simp add: stopSession_def Let_def split: option.splits)

lemma markedStudents_startSession [simp]:
  "markedStudents (startSession gum play_ok now s) = markedStudents s"
  by (simp add: startSession_def connectWS_def Let_def split: option.splits)

lemma markedStudents_stopSession [simp]:
  "markedStudents (stopSession s) = markedStudents s"
  by (simp add: stopSession_def Let_def split: option.splits)

lemma markedStudents_sendFrame [simp]:
  "markedStudents (sendFrame img s) = markedStudents s"
  by (simp add: sendFrame_def Let_def split: option.splits)

subsection \<open>At most one log entry per name\<close>

lemma add_marked_distinct:
  "distinct (map ms_name prev) \<Longrightarrow> distinct (map ms_name (add_marked f now prev))"
  by (auto simp: add_marked_def list_ex_iff)

lemma add_marked_known:
  "name f \<in> ms_name ` set prev \<Longrightarrow> add_marked f now prev = prev"
  by (auto simp: add_marked_def list_ex_iff)

lemma fold_on_face_distinct:
  "distinct (map ms_name (markedStudents s)) \<Longrightarrow>
   distinct (map ms_name (markedStudents (fold (on_face now) fs s)))"
  by (induction fs arbitrary: s) (simp_all add: on_face_def add_marked_distinct)

lemma onmessage_distinct:
  "distinct (map ms_name (markedStudents s)) \<Longrightarrow>
   distinct (map ms_name (markedStudents (onmessage d now s)))"
  by (cases d) (simp_all add: onmessage_def Let_def fold_on_face_distinct)

lemma page_step_distinct:
  "distinct (map ms_name (markedStudents s)) \<Longrightarrow>
   distinct (map ms_name (markedStudents (page_step e s)))"
  by (cases e) (simp_all add: onmessage_distinct)

lemma page_run_distinct:
  "distinct (map ms_name (markedStudents s)) \<Longrightarrow>
   distinct (map ms_name (markedStudents (page_run es s)))"
  unfolding page_run_def
  by (induction es arbitrary: s) (simp_all add: page_step_distinct)

lemma distinct_count_le1:
  "distinct (map f xs) \<Longrightarrow> length (filter (\<lambda>m. f m = n) xs) \<le> 1"
  by (induction xs) (auto simp: filter_empty_conv image_iff)

text \<open>
  C1. At-most-once marking per (session, identity). Whatever the page receives and does
  (any list of events: messages on any socket with any faces, ticks, socket events,
  sessions started and stopped), a session log without repeated names stays without
  repeated names, so it holds at most one entry for each name \<open>n\<close>; from the mounted
  page, whose log is empty, this holds outright. And the update for a face whose name is
  already in the log returns the log as it is.
\<close>

theorem marked_at_most_once:
  "(distinct (map ms_name (markedStudents s)) \<longrightarrow>
      distinct (map ms_name (markedStudents (page_run es s)))
      \<and> length (filter (\<lambda>m. ms_name m = n) (markedStudents (page_run es s))) \<le> 1)
   \<and> (name f \<in> ms_name ` set prev \<longrightarrow> add_marked f now prev = prev)
   \<and> length (filter (\<lambda>m. ms_name m = n) (markedStudents (page_run es page_init))) \<le> 1"
proof -
  have i: "distinct (map ms_name (markedStudents page_init))" by (simp add: page_init_def)
  show ?thesis
    using page_run_distinct [of s es] page_run_distinct [OF i, of es]
      distinct_count_le1 [of ms_name "markedStudents (page_run es s)" n]
      distinct_count_le1 [of ms_name "markedStudents (page_run es page_init)" n]
      add_marked_known [of f prev now]
    by blast
qed

theorem marked_at_most_once_witness:
  "distinct (map ms_name (markedStudents page_init))
   \<and> markedStudents (page_run demo_session page_init) = [\<lparr>ms_name = ''Alice'', ms_time = ''09:00:02''\<rparr>]
   \<and> length (filter (\<lambda>m. ms_name m = ''Alice'') (markedStudents (page_run demo_session page_init))) \<le> 1
   \<and> name alice \<in> ms_name ` set [\<lparr>ms_name = ''Alice'', ms_time = ''09:00:02''\<rparr>]
   \<and> add_marked alice ''09:00:03'' [\<lparr>ms_name = ''Alice'', ms_time = ''09:00:02''\<rparr>]
       = [\<lparr>ms_name = ''Alice'', ms_time = ''09:00:02''\<rparr>]"
  using marked_at_most_once [of page_init demo_session "''Alice''" alice
      "[\<lparr>ms_name = ''Alice'', ms_time = ''09:00:02''\<rparr>]" "''09:00:03''"]
  by (simp add: page_eval)

subsection \<open>Errors stay inside one message\<close>

text \<open>
  C5. Per-message error isolation. A message that does not parse leaves the whole page
  state as it was (so the faces, the log, the socket and the timer: the session goes on),
  whether the handler is taken alone or as the socket's event; a reply without a
  \<^verbatim>\<open>detected\<close> field is handled as the reply with no faces, which empties the list of
  detected faces and nothing else; and \<^verbatim>\<open>sendFrame\<close> returns the state unchanged,
  nothing sent, when there is no socket, the socket is not open, or the video or the
  canvas ref is empty.
\<close>

theorem message_error_isolation:
  "onmessage Malformed now s = s
   \<and> page_step (Message w Malformed now) s = s
   \<and> onmessage (Reply None) now s = s\<lparr>detected := []\<rparr>
   \<and> onmessage (Reply None) now s = onmessage (Reply (Some [])) now s
   \<and> ((wsRef s = None \<or> (\<exists>h. wsRef s = Some h \<and> sockets s h \<noteq> Some OPEN)
        \<or> videoRef s = None \<or> canvasRef s = None) \<longrightarrow> sendFrame img s = s)"
  by (auto simp: onmessage_def sendFrame_def split: option.splits)

theorem message_error_isolation_witness:
  "wsRef (page_init :: unit page) = None
   \<and> sendFrame [1, 2, 3] (page_init :: unit page) = page_init
   \<and> onmessage Malformed ''09:00:04'' (page_run demo_session page_init) = page_run demo_session page_init
   \<and> detected (onmessage (Reply None) ''09:00:04'' (page_run demo_session page_init)) = []
   \<and> detected (page_run demo_session page_init) = [alice]"
  using message_error_isolation [of "''09:00:04''" "page_run demo_session page_init" 2 "[1, 2, 3]"]
    message_error_isolation [of "''09:00:04''" "page_init :: unit page" 2 "[1, 2, 3]"]
  by (simp add: page_eval)

subsection \<open>Frames are paced by the timer\<close>

lemma outbox_page_step_le:
  "length (outbox (page_step e s)) \<le> length (outbox s) + (if is_tick e then 1 else 0)"
proof (cases e)
  case (Tick i img)
  then show ?thesis using outbox_sendFrame [of img s] by (auto simp: is_tick_def)
qed (simp_all add: is_tick_def)

lemma outbox_page_run_le:
  "length (outbox (page_run es s)) \<le> length (outbox s) + length (filter is_tick es)"
proof (induction es arbitrary: s)
  case Nil
  then show ?case by (simp add: page_run_def)
next
  case (Cons e es)
  have "length (outbox (page_run es (page_step e s)))
        \<le> length (outbox (page_step e s)) + length (filter is_tick es)"
    by (rule Cons.IH)
  with outbox_page_step_le [of e s] show ?case
    by (simp add: page_run_def split: if_splits)
qed

lemma period_ok_step: "period_ok s \<Longrightarrow> period_ok (page_step e s)"
  by (cases e)
     (auto simp: period_ok_def sendFrame_def startSession_def connectWS_def stopSession_def
        onmessage_def Let_def split: option.splits if_splits ws_data.splits)

lemma period_ok_run: "period_ok s \<Longrightarrow> period_ok (page_run es s)"
  unfolding page_run_def by (induction es arbitrary: s) (simp_all add: period_ok_step)

lemma startSession_interval:
  "intervals (startSession gum play_ok now s) = intervals s \<or>
   (\<exists>i. intervals (startSession gum play_ok now s) = (intervals s)(i \<mapsto> 1500)
        \<and> intervalRef (startSession gum play_ok now s) = Some i)"
  by (auto simp: startSession_def connectWS_def Let_def split: option.splits)

text \<open>
  C7. Client-paced frame flow. A tick of the timer either changes nothing (the frame is
  dropped; the page keeps no pending frame) or sends exactly one message, the JPEG of the
  picture of that tick; a tick while the referenced socket is not open changes nothing;
  so over any list of events the number of frames sent grows by at most the number of
  ticks. \<^verbatim>\<open>startSession\<close> registers at most one timer, with period 1500 ms, and every
  timer the page ever has, from its mounting on, has that period.
\<close>

theorem client_paced_frames:
  "(page_step (Tick i img) s = s
      \<or> (\<exists>w. outbox (page_step (Tick i img) s) = outbox s @ [(w, jpeg_frame img)]))
   \<and> ((\<forall>w. wsRef s = Some w \<longrightarrow> sockets s w \<noteq> Some OPEN) \<longrightarrow> page_step (Tick i img) s = s)
   \<and> length (outbox (page_run es s)) \<le> length (outbox s) + length (filter is_tick es)
   \<and> (intervals (page_run es page_init) j = Some p \<longrightarrow> p = 1500)
   \<and> (intervals (startSession gum play_ok now s) = intervals s
       \<or> (\<exists>k. intervals (startSession gum play_ok now s) = (intervals s)(k \<mapsto> 1500)
              \<and> intervalRef (startSession gum play_ok now s) = Some k))"
proof -
  have a: "page_step (Tick i img) s = s
      \<or> (\<exists>w. outbox (page_step (Tick i img) s) = outbox s @ [(w, jpeg_frame img)])"
    using sendFrame_cases [of img s] by auto
  have b: "(\<forall>w. wsRef s = Some w \<longrightarrow> sockets s w \<noteq> Some OPEN) \<longrightarrow> page_step (Tick i img) s = s"
    by (auto simp: sendFrame_def split: option.splits)
  have "period_ok page_init" by (simp add: period_ok_def page_init_def)
  then have "period_ok (page_run es page_init)" by (rule period_ok_run)
  then have c: "intervals (page_run es page_init) j = Some p \<longrightarrow> p = 1500"
    by (simp add: period_ok_def)
  have d: "intervals (startSession gum play_ok now s) = intervals s
       \<or> (\<exists>k. intervals (startSession gum play_ok now s) = (intervals s)(k \<mapsto> 1500)
              \<and> intervalRef (startSession gum play_ok now s) = Some k)"
    using startSession_interval [of gum play_ok now s] by blast
  from a b c d outbox_page_run_le [of es s] show ?thesis by blast
qed

theorem client_paced_frames_witness:
  "wsRef (page_run [StartSession (Some [Live]) True ''09:00:00''] (page_init :: unit page)) = Some 2
   \<and> sockets (page_run [StartSession (Some [Live]) True ''09:00:00''] (page_init :: unit page)) 2 = Some CONNECTING
   \<and> page_step (Tick 3 [1, 2, 3]) (page_run [StartSession (Some [Live]) True ''09:00:00''] (page_init :: unit page))
       = page_run [StartSession (Some [Live]) True ''09:00:00''] (page_init :: unit page)
   \<and> intervals (page_run demo_session page_init) 3 = Some 1500
   \<and> outbox (page_run demo_session page_init) = [(2, jpeg_frame [1, 2, 3]), (2, jpeg_frame [4, 5, 6])]
   \<and> length (filter is_tick demo_session) = 2"
  using client_paced_frames [of 3 "[1, 2, 3]"
      "page_run [StartSession (Some [Live]) True ''09:00:00''] (page_init :: unit page)" demo_session 3 1500
      "Some [Live]" True "''09:00:00''"]
  by (simp add: page_eval is_tick_def)

subsection \<open>Stopping a session\<close>

lemma torn_down_step:
  "torn_down w s \<Longrightarrow> \<not> is_start e \<Longrightarrow> msg_on w e \<Longrightarrow>
   torn_down w (page_step e s) \<and> outbox (page_step e s) = outbox s
   \<and> markedStudents (page_step e s) = markedStudents s"
  by (cases e)
     (auto simp: torn_down_def is_start_def msg_on_def sendFrame_def stopSession_def
        onmessage_def Let_def close_socket_def split: option.splits ready_state.splits)

lemma torn_down_run:
  "torn_down w s \<Longrightarrow> \<not> list_ex is_start es \<Longrightarrow> list_all (msg_on w) es \<Longrightarrow>
   outbox (page_run es s) = outbox s \<and> markedStudents (page_run es s) = markedStudents s"
proof (induction es arbitrary: s)
  case Nil
  then show ?case by (simp add: page_run_def)
next
  case (Cons e es)
  from Cons.prems have e: "\<not> is_start e" "msg_on w e"
    and es: "\<not> list_ex is_start es" "list_all (msg_on w) es"
    by simp_all
  from torn_down_step [OF Cons.prems(1) e]
  have st: "torn_down w (page_step e s)" "outbox (page_step e s) = outbox s"
    "markedStudents (page_step e s) = markedStudents s" by simp_all
  from Cons.IH [OF st(1) es] st(2,3) show ?case by (simp add: page_run_def)
qed

lemma no_socket_step:
  "wsRef s = None \<Longrightarrow> \<not> is_start e \<Longrightarrow>
   wsRef (page_step e s) = None \<and> outbox (page_step e s) = outbox s"
  by (cases e)
     (auto simp: is_start_def sendFrame_def stopSession_def onmessage_def Let_def
        split: option.splits ws_data.splits)

lemma no_socket_run:
  "wsRef s = None \<Longrightarrow> \<not> list_ex is_start es \<Longrightarrow> outbox (page_run es s) = outbox s"
proof (induction es arbitrary: s)
  case Nil
  then show ?case by (simp add: page_run_def)
next
  case (Cons e es)
  from Cons.prems have e: "\<not> is_start e" and es: "\<not> list_ex is_start es" by simp_all
  from no_socket_step [OF Cons.prems(1) e]
  have st: "wsRef (page_step e s) = None" "outbox (page_step e s) = outbox s" by simp_all
  from Cons.IH [OF st(1) es] st(2) show ?case by (simp add: page_run_def)
qed

lemma stopSession_torn_down: "wsRef s = Some w \<Longrightarrow> torn_down w (stopSession s)"
  by (auto simp: torn_down_def stopSession_def Let_def close_socket_def
      split: option.splits ready_state.splits)

text \<open>
  C4. Session close tears everything down. After \<^verbatim>\<open>stopSession\<close>: the timer ref is null
  and the timer it held is cleared; the socket ref is null and the socket it held has had
  \<^verbatim>\<open>close()\<close> called, so it is neither open nor connecting; the stream ref is null and
  every track of the stream it held is ended; the list of detected faces is empty. From
  then on \<^verbatim>\<open>sendFrame\<close> changes nothing, and over any later events that start no new
  session nothing more is sent; if moreover the messages among them are those of the
  closed session's socket, the session log stays as it was.
\<close>

theorem stopSession_teardown:
  "intervalRef (stopSession s) = None
   \<and> (intervalRef s = Some i \<longrightarrow> intervals (stopSession s) i = None)
   \<and> wsRef (stopSession s) = None
   \<and> (wsRef s = Some w \<longrightarrow> sockets (stopSession s) w = map_option close_socket (sockets s w)
        \<and> sockets (stopSession s) w \<noteq> Some OPEN \<and> sockets (stopSession s) w \<noteq> Some CONNECTING)
   \<and> streamRef (stopSession s) = None
   \<and> (streamRef s = Some h \<and> streams s h = Some ts \<longrightarrow>
        streams (stopSession s) h = Some (map (\<lambda>t. Ended) ts))
   \<and> detected (stopSession s) = []
   \<and> sendFrame img (stopSession s) = stopSession s
   \<and> (\<not> list_ex is_start es \<longrightarrow> outbox (page_run es (stopSession s)) = outbox s)
   \<and> (wsRef s = Some w \<and> \<not> list_ex is_start es \<and> list_all (msg_on w) es \<longrightarrow>
        markedStudents (page_run es (stopSession s)) = markedStudents s)"
proof -
  have a: "intervalRef (stopSession s) = None" "wsRef (stopSession s) = None"
    "streamRef (stopSession s) = None" "detected (stopSession s) = []"
    by (simp_all add: stopSession_def Let_def split: option.splits)
  have b: "intervalRef s = Some i \<longrightarrow> intervals (stopSession s) i = None"
    by (simp add: stopSession_def Let_def split: option.splits)
  have c: "wsRef s = Some w \<longrightarrow> sockets (stopSession s) w = map_option close_socket (sockets s w)"
    by (simp add: stopSession_def Let_def split: option.splits)
  have d: "streamRef s = Some h \<and> streams s h = Some ts \<longrightarrow>
        streams (stopSession s) h = Some (map (\<lambda>t. Ended) ts)"
    by (simp add: stopSession_def Let_def split: option.splits)
  have e: "sendFrame img (stopSession s) = stopSession s"
    using a(2) by (simp add: sendFrame_def)
  have f: "wsRef s = Some w \<longrightarrow> torn_down w (stopSession s)"
    using stopSession_torn_down by blast
  have g: "wsRef s = Some w \<and> \<not> list_ex is_start es \<and> list_all (msg_on w) es \<longrightarrow>
        markedStudents (page_run es (stopSession s)) = markedStudents s"
    using torn_down_run [of w "stopSession s" es] f by simp
  have h: "\<not> list_ex is_start es \<longrightarrow> outbox (page_run es (stopSession s)) = outbox s"
    using no_socket_run [of "stopSession s" es] a(2) by simp
  from a b c d e f g h show ?thesis unfolding torn_down_def by blast
qed

theorem stopSession_teardown_witness:
  "intervalRef (page_run demo_session page_init) = Some 3
   \<and> intervals (page_run demo_session page_init) 3 = Some 1500
   \<and> intervals (stopSession (page_run demo_session page_init)) 3 = None
   \<and> wsRef (page_run demo_session page_init) = Some 2
   \<and> sockets (page_run demo_session page_init) 2 = Some OPEN
   \<and> sockets (stopSession (page_run demo_session page_init)) 2 = Some CLOSING
   \<and> streamRef (page_run demo_session page_init) = Some 1
   \<and> streams (page_run demo_session page_init) 1 = Some [Live]
   \<and> streams (stopSession (page_run demo_session page_init)) 1 = Some [Ended]
   \<and> \<not> list_ex is_start after_stop \<and> list_all (msg_on 2) after_stop
   \<and> outbox (page_run after_stop (stopSession (page_run demo_session page_init)))
       = [(2, jpeg_frame [1, 2, 3]), (2, jpeg_frame [4, 5, 6])]
   \<and> markedStudents (page_run after_stop (stopSession (page_run demo_session page_init)))
       = [\<lparr>ms_name = ''Alice'', ms_time = ''09:00:02''\<rparr>]"
proof -
  have s: "intervalRef (page_run demo_session page_init) = Some 3"
    "intervals (page_run demo_session page_init) 3 = Some 1500"
    "wsRef (page_run demo_session page_init) = Some 2"
    "sockets (page_run demo_session page_init) 2 = Some OPEN"
    "streamRef (page_run demo_session page_init) = Some 1"
    "streams (page_run demo_session page_init) 1 = Some [Live]"
    "outbox (page_run demo_session page_init) = [(2, jpeg_frame [1, 2, 3]), (2, jpeg_frame [4, 5, 6])]"
    "markedStudents (page_run demo_session page_init) = [\<lparr>ms_name = ''Alice'', ms_time = ''09:00:02''\<rparr>]"
    by (simp_all add: page_eval)
  have e: "\<not> list_ex is_start after_stop" "list_all (msg_on 2) after_stop"
    by (simp_all add: after_stop_def is_start_def msg_on_def)
  from s e stopSession_teardown [of "page_run demo_session page_init" 3 2 1 "[Live]" "[7, 8, 9]" after_stop]
  show ?thesis by (simp add: close_socket_def)
qed

subsection \<open>The attendance rate\<close>

lemma tiny_le: "(2::rat) powi (- 1022) \<le> 2 powi (- 53)"
  by (rule powi_mono) simp

lemma tri100: "\<bar>z - 100 * q\<bar> \<le> \<bar>z - y * 100\<bar> + 100 * \<bar>y - (q::rat)\<bar>"
proof -
  have "z - 100 * q = (z - y * 100) + 100 * (y - q)" by simp
  then have "\<bar>z - 100 * q\<bar> \<le> \<bar>z - y * 100\<bar> + \<bar>100 * (y - q)\<bar>"
    by (simp only: abs_triangle_ineq)
  moreover have "\<bar>100 * (y - q)\<bar> = 100 * \<bar>y - q\<bar>"
    by (simp only: abs_mult abs_numeral)
  ultimately show ?thesis by (simp only:)
qed

lemma rate_error:
  assumes "0 \<le> p" "p \<le> t" "0 < t" "t \<le> 2 ^ 53"
  shows "\<bar>round64 (round64 (of_int p / of_int t) * 100) - 100 * of_int p / of_int t\<bar> \<le> 1 / 2 ^ 45"
proof (cases "p = 0")
  case True
  then show ?thesis by (simp add: round64_def)
next
  case False
  with assms(1) have p: "1 \<le> p" by simp
  let ?q = "of_int p / of_int t :: rat"
  let ?y = "round64 ?q"
  let ?z = "round64 (?y * 100)"
  have t: "(0::rat) < of_int t" using assms(3) by simp
  have t53: "(of_int t :: rat) \<le> 2 ^ 53" using assms(4) by (rule int_le_pow_rat)
  have q1: "?q \<le> 1" using assms(2) t by simp
  have "(of_int t :: rat) \<le> 2 ^ 53 * of_int p"
  proof -
    have "(1::rat) \<le> of_int p" using p by simp
    then have "(2::rat) ^ 53 * 1 \<le> 2 ^ 53 * of_int p" by (intro mult_left_mono) simp_all
    with t53 show ?thesis by simp
  qed
  then have "1 / 2 ^ 53 \<le> ?q" using t by (simp add: field_simps)
  then have qlo': "2 powi (- 53) \<le> ?q" by (simp add: power_int_def field_simps)
  then have qlo: "of_int 1 * 2 powi (- 53) \<le> ?q" by (simp only: of_int_1 mult_1)
  have qn: "2 powi (- 1022) \<le> ?q" using tiny_le qlo' by (rule order_trans)
  have q0: "0 \<le> ?q" using assms(1) t by simp
  from round64_unit [OF q0 q1] have y01: "0 \<le> ?y" "?y \<le> 1" by simp_all
  have ylo: "of_int 1 * 2 powi (- 53) \<le> ?y"
    by (rule round64_ge_dyadic [OF _ _ _ qlo]) simp_all
  then have "2 powi (- 53) \<le> ?y" by (simp only: of_int_1 mult_1)
  with tiny_le have "2 powi (- 1022) \<le> ?y" by (rule order_trans)
  moreover have "?y \<le> ?y * 100" using y01(1) by simp
  ultimately have yn: "2 powi (- 1022) \<le> ?y * 100" by (rule order_trans)
  from round64_rel_err [OF qn] have e1: "\<bar>?y - ?q\<bar> \<le> ?q / 2 ^ 53" .
  from round64_rel_err [OF yn] have e2: "\<bar>?z - ?y * 100\<bar> \<le> ?y * 100 / 2 ^ 53" .
  have "?q / 2 ^ 53 \<le> 1 / 2 ^ 53" using q1 by (simp add: field_simps)
  with e1 have e1': "\<bar>?y - ?q\<bar> \<le> 1 / 2 ^ 53" by linarith
  have "?y * 100 / 2 ^ 53 \<le> 100 / 2 ^ 53" using y01(2) by (simp add: field_simps)
  with e2 have e2': "\<bar>?z - ?y * 100\<bar> \<le> 100 / 2 ^ 53" by linarith
  have "\<bar>?z - 100 * ?q\<bar> \<le> \<bar>?z - ?y * 100\<bar> + 100 * \<bar>?y - ?q\<bar>" by (rule tri100)
  also have "\<dots> \<le> 100 / 2 ^ 53 + 100 * (1 / 2 ^ 53)"
    using e1' e2' by (intro add_mono mult_left_mono) simp_all
  also have "\<dots> \<le> 1 / 2 ^ 45" by simp
  finally show ?thesis by simp
qed

lemma js_round_err: "\<bar>of_int \<lfloor>z + 1 / 2\<rfloor> - z\<bar> \<le> 1 / (2::rat)"
  by linarith

lemma round64_23_40: "round64 (23 / 40) = 2589569785738035 / 4503599627370496"
proof -
  have "round64 (23 / 40) = of_int 5179139571476070 * 2 powi (- 1 - 52)"
    by (rule round64_near) (simp_all add: powi_eval)
  also have "\<dots> = 2589569785738035 / 4503599627370496"
    by (simp add: powi_eval)
  finally show ?thesis .
qed

lemma round64_23_40_100:
  "round64 (64739244643450875 / 1125899906842624) = 8092405580431359 / 140737488355328"
proof -
  have "round64 (64739244643450875 / 1125899906842624)
        = of_int 8092405580431359 * 2 powi (5 - 52)"
    by (rule round64_near) (simp_all add: powi_eval)
  also have "\<dots> = 8092405580431359 / 140737488355328"
    by (simp add: powi_eval)
  finally show ?thesis .
qed

lemma rate_23_of_40: "getAttendanceRate day_23_of_40 = Num 57"
proof -
  have i: "js_int 23 = Num 23" "js_int 17 = Num 17" "js_int 40 = Num 40"
    using js_int_safe [of 23] js_int_safe [of 17] js_int_safe [of 40] by simp_all
  have t: "js_num 40 = Num 40" using i(3) by (simp add: js_int_def)
  have d: "js_num (23 / 40) = Num (2589569785738035 / 4503599627370496)"
    by (simp add: js_num_def round64_23_40 Let_def)
  have m: "js_num (64739244643450875 / 1125899906842624) = Num (8092405580431359 / 140737488355328)"
    using round64_23_40_100 by (simp add: js_num_def Let_def)
  have f: "\<lfloor>8162774324609023 / 140737488355328 :: rat\<rfloor> = 57"
    by (rule floor_unique) simp_all
  show ?thesis
    unfolding getAttendanceRate_def day_23_of_40_def
    by (simp add: i t d m f Let_def)
qed

text \<open>
  C9, as the code has it. For a day whose counts are non-negative integers with a sum
  of at most \<open>2 ^ 53\<close> (so that each is a double), \<^verbatim>\<open>getAttendanceRate\<close> returns 0 when
  the sum is 0, and otherwise an integer between 0 and 100 that lies within
  \<open>1 / 2 + 1 / 2 ^ 45\<close> of \<open>100 * present_count / total\<close>: it is \<^verbatim>\<open>Math.round\<close> of the
  double \<^verbatim>\<open>(present_count / total) * 100\<close>, each operation rounded to a double.
\<close>

theorem attendance_rate_bounded:
  assumes "0 \<le> present_count day" "0 \<le> absent_count day"
    and "present_count day + absent_count day \<le> 2 ^ 53"
  shows "(present_count day + absent_count day = 0 \<longrightarrow> getAttendanceRate day = Num 0)
    \<and> (present_count day + absent_count day \<noteq> 0 \<longrightarrow>
         (\<exists>r. getAttendanceRate day = Num (of_int r) \<and> 0 \<le> r \<and> r \<le> 100
            \<and> \<bar>rat_of_int r - 100 * of_int (present_count day)
                  / of_int (present_count day + absent_count day)\<bar> \<le> 1 / 2 + 1 / 2 ^ 45))"
proof -
  let ?p = "present_count day" and ?a = "absent_count day"
  let ?t = "?p + ?a"
  let ?q = "of_int ?p / of_int ?t :: rat"
  let ?y = "round64 ?q"
  let ?z = "round64 (?y * 100)"
  let ?r = "\<lfloor>?z + 1 / 2\<rfloor>"
  have pt: "?p \<le> ?t" "0 \<le> ?t" "?p \<le> 2 ^ 53" "?a \<le> 2 ^ 53" using assms by simp_all
  have ip: "js_int ?p = Num (of_int ?p)" using assms(1) pt(3) by (rule js_int_safe)
  have ia: "js_int ?a = Num (of_int ?a)" using assms(2) pt(4) by (rule js_int_safe)
  have "js_add (js_int ?p) (js_int ?a) = js_int ?t" unfolding ip ia by (simp add: js_int_def)
  also have "\<dots> = Num (of_int ?t)" using pt(2) assms(3) by (rule js_int_safe)
  finally have tot: "js_add (js_int ?p) (js_int ?a) = Num (of_int ?t)" .
  have zero: "?t = 0 \<longrightarrow> getAttendanceRate day = Num 0"
    by (simp add: getAttendanceRate_def tot Let_def)
  have pos: "?t \<noteq> 0 \<longrightarrow>
         (\<exists>r. getAttendanceRate day = Num (of_int r) \<and> 0 \<le> r \<and> r \<le> 100
            \<and> \<bar>rat_of_int r - 100 * of_int ?p / of_int ?t\<bar> \<le> 1 / 2 + 1 / 2 ^ 45)"
  proof
    assume "?t \<noteq> 0"
    with pt(2) have t: "0 < ?t" by simp
    then have tr: "(0::rat) < of_int ?t" by simp
    have q0: "0 \<le> ?q" using assms(1) tr by simp
    have q1: "?q \<le> 1" using pt(1) tr by simp
    from round64_unit [OF q0 q1] have y: "0 \<le> ?y" "?y \<le> 1" by simp_all
    then have "0 \<le> ?y * 100" "?y * 100 \<le> 100" by simp_all
    from round64_le_100 [OF this] have z: "0 \<le> ?z" "?z \<le> 100" by simp_all
    have d: "js_div (Num (of_int ?p)) (Num (of_int ?t)) = Num ?y"
      using tr y big(3) by (simp add: js_num_Num)
    have m: "js_mul (Num ?y) (Num 100) = Num ?z"
      using z big(2) by (simp add: js_num_Num)
    have g: "getAttendanceRate day = Num (of_int ?r)"
      unfolding getAttendanceRate_def tot unfolding ip Let_def d m using tr by simp
    have r0: "0 \<le> ?r" using z(1) by simp
    have "?z + 1 / 2 < 101" using z(2) by simp
    then have "?r < 101" by (simp add: floor_less_iff)
    then have r1: "?r \<le> 100" by simp
    have "\<bar>rat_of_int ?r - 100 * of_int ?p / of_int ?t\<bar>
          \<le> \<bar>rat_of_int ?r - ?z\<bar> + \<bar>?z - 100 * of_int ?p / of_int ?t\<bar>" by linarith
    also have "\<dots> \<le> 1 / 2 + 1 / 2 ^ 45"
      using js_round_err [of ?z] rate_error [OF assms(1) pt(1) t assms(3)] by linarith
    finally show "\<exists>r. getAttendanceRate day = Num (of_int r) \<and> 0 \<le> r \<and> r \<le> 100
            \<and> \<bar>rat_of_int r - 100 * of_int ?p / of_int ?t\<bar> \<le> 1 / 2 + 1 / 2 ^ 45"
      using g r0 r1 by blast
  qed
  from zero pos show ?thesis ..
qed

text \<open>
  C9 as stated fails: with 23 present and 17 absent the exact rate is
  57.5, which rounds to 58, but the doubles give \<^verbatim>\<open>(23 / 40) * 100 = 57.49999999999999\<close>
  and \<^verbatim>\<open>Math.round\<close> returns 57.
\<close>

theorem attendance_rate_not_exact_round:
  "0 \<le> present_count day_23_of_40 \<and> 0 \<le> absent_count day_23_of_40
   \<and> present_count day_23_of_40 + absent_count day_23_of_40 \<noteq> 0
   \<and> round (100 * rat_of_int (present_count day_23_of_40)
        / rat_of_int (present_count day_23_of_40 + absent_count day_23_of_40)) = 58
   \<and> getAttendanceRate day_23_of_40 = Num 57
   \<and> getAttendanceRate day_23_of_40
       \<noteq> Num (of_int (round (100 * rat_of_int (present_count day_23_of_40)
              / rat_of_int (present_count day_23_of_40 + absent_count day_23_of_40))))"
proof -
  have r: "round (100 * rat_of_int (present_count day_23_of_40)
        / rat_of_int (present_count day_23_of_40 + absent_count day_23_of_40)) = 58"
    by (simp add: day_23_of_40_def round_def floor_unique)
  show ?thesis unfolding r by (simp add: rate_23_of_40) (simp add: day_23_of_40_def)
qed

theorem attendance_rate_bounded_witness:
  "0 \<le> present_count day_23_of_40 \<and> 0 \<le> absent_count day_23_of_40
   \<and> present_count day_23_of_40 + absent_count day_23_of_40 \<le> 2 ^ 53
   \<and> present_count day_23_of_40 + absent_count day_23_of_40 \<noteq> 0
   \<and> getAttendanceRate day_23_of_40 = Num (of_int 57) \<and> (0::int) \<le> 57 \<and> (57::int) \<le> 100
   \<and> \<bar>rat_of_int 57 - 100 * of_int (present_count day_23_of_40)
        / of_int (present_count day_23_of_40 + absent_count day_23_of_40)\<bar> \<le> 1 / 2 + 1 / 2 ^ 45"
  using attendance_rate_bounded [of day_23_of_40] rate_23_of_40
  by (simp add: day_23_of_40_def)

subsection \<open>The confirmation progress bar\<close>

lemma js_gt_zero_nonzero: "js_gt b (Num 0) \<Longrightarrow> b \<noteq> Num 0"
  by (cases b) auto

lemma js_min_not_gt: "\<not> js_gt (js_min a (Num 1)) (Num 1)"
  by (cases a) (auto simp: js_min_def)

lemma js_div_finite: "b \<noteq> 0 \<Longrightarrow> js_div (Num a) (Num b) = js_num (a / b)"
  by simp

lemma progress_finite:
  assumes "frames_confirmed d = Num a" "frames_required d = Num b" "0 < b"
  shows "progress d = js_min (js_num (a / b)) (Num 1)"
    and "progress d \<noteq> NaN" and "js_le (progress d) (Num 1)"
  using assms js_min_one [of "a / b"] by (simp_all add: progress_def)

lemma progress_full:
  assumes "frames_confirmed d = Num a" "frames_required d = Num b" "0 < b" "b \<le> a"
  shows "progress d = Num 1"
proof -
  from assms(3,4) have "1 \<le> a / b" by simp
  then have "js_min (js_num (a / b)) (Num 1) = Num 1" by (rule js_min_full)
  with assms show ?thesis by (simp add: progress_def)
qed

lemma progress_overflow:
  "frames_confirmed d = Infinity s \<Longrightarrow> frames_required d = Infinity t \<Longrightarrow> progress d = NaN"
  by (simp add: progress_def js_min_def)

lemma draw_face_bar:
  "drop 10 (draw_face mt ow sx sy d)
     = progress_bar d (js_mul (bbox_x (bbox d)) sx) (js_mul (bbox_y (bbox d)) sy)
         (js_mul (bbox_w (bbox d)) sx) (js_mul (bbox_h (bbox d)) sy)"
  by (simp add: draw_face_def Let_def)

lemma js_num_not_NaN: "js_num x \<noteq> NaN"
  by (simp add: js_num_def Let_def)

lemma js_min_le_one: "a \<noteq> NaN \<Longrightarrow> js_le (js_min a (Num 1)) (Num 1)"
  by (simp add: js_min_def)

lemma js_min_NaN_iff: "js_min a (Num 1) = NaN \<longleftrightarrow> a = NaN"
  by (cases a) (auto simp: js_min_def)

lemma progress_NaN_iff:
  assumes "js_gt (frames_required d) (Num 0)"
  shows "progress d = NaN \<longleftrightarrow>
           frames_confirmed d = NaN
           \<or> (frames_confirmed d = Infinity Pos \<or> frames_confirmed d = Infinity Neg)
              \<and> frames_required d = Infinity Pos"
proof (cases "frames_required d")
  case (Num b)
  with assms have "b \<noteq> 0" by simp
  with Num show ?thesis
    by (cases "frames_confirmed d") (simp_all add: progress_def js_min_NaN_iff js_num_not_NaN)
next
  case (Infinity t)
  with assms have "t = Pos" by simp
  with Infinity show ?thesis
    by (cases "frames_confirmed d"; simp add: progress_def js_min_NaN_iff) (metis sign.exhaust)
next
  case NaN
  with assms show ?thesis by simp
qed

lemma progress_le_one: "progress d \<noteq> NaN \<Longrightarrow> js_le (progress d) (Num 1)"
  unfolding progress_def by (rule js_min_le_one) (simp add: js_min_NaN_iff)

text \<open>
  C8. The progress bar is division-safe and clamped. In the drawing of a face of a reply
  the bar is the part after the first ten calls, and it is drawn exactly when the face is
  not confirmed and \<^verbatim>\<open>frames_required > 0\<close> holds, so the quotient
  \<^verbatim>\<open>frames_confirmed / frames_required\<close> is only taken with a divisor that is not zero. The
  fraction drawn is \<^verbatim>\<open>Math.min\<close> of that quotient and 1, and for every pair of JavaScript
  numbers it never compares greater than 1. Whenever it is a number it is at most 1: so it
  is for finite counts, where it is the double nearest to the quotient or 1, and exactly 1
  as soon as \<^verbatim>\<open>frames_confirmed\<close> is at or above \<^verbatim>\<open>frames_required\<close>. Under the guard it is
  NaN in one case only, that of a \<^verbatim>\<open>frames_confirmed\<close> and a \<^verbatim>\<open>frames_required\<close> that both
  overflowed to an infinity when the reply was parsed (or a \<^verbatim>\<open>frames_confirmed\<close> that is
  NaN, which a JSON text cannot hold): then nothing exceeds 1 either, the width of the
  bar being NaN.
\<close>

theorem progress_bar_safe:
  "(progress_bar d bx by' bw bh \<noteq> [] \<longleftrightarrow> \<not> confirmed d \<and> js_gt (frames_required d) (Num 0))
   \<and> drop 10 (draw_face mt ow sx sy d)
       = progress_bar d (js_mul (bbox_x (bbox d)) sx) (js_mul (bbox_y (bbox d)) sy)
           (js_mul (bbox_w (bbox d)) sx) (js_mul (bbox_h (bbox d)) sy)
   \<and> (\<not> confirmed d \<and> js_gt (frames_required d) (Num 0) \<longrightarrow>
        frames_required d \<noteq> Num 0
        \<and> progress_bar d bx by' bw bh =
            [SetFillStyle ''rgba(255,255,255,0.25)'', BeginPath,
             RoundRect bx (js_add (js_add by' bh) (Num 6)) bw (Num 4) (Num 2), Fill,
             SetFillStyle ''#8b5cf6'', BeginPath,
             RoundRect bx (js_add (js_add by' bh) (Num 6))
               (js_mul bw (js_min (js_div (frames_confirmed d) (frames_required d)) (Num 1)))
               (Num 4) (Num 2),
             Fill])
   \<and> \<not> js_gt (progress d) (Num 1)
   \<and> (progress d \<noteq> NaN \<longrightarrow> js_le (progress d) (Num 1))
   \<and> (js_gt (frames_required d) (Num 0) \<longrightarrow>
        (progress d = NaN \<longleftrightarrow>
           frames_confirmed d = NaN
           \<or> (frames_confirmed d = Infinity Pos \<or> frames_confirmed d = Infinity Neg)
              \<and> frames_required d = Infinity Pos))
   \<and> (frames_confirmed d = Num a \<and> frames_required d = Num b \<and> 0 < b \<longrightarrow>
        progress d = js_min (js_num (a / b)) (Num 1) \<and> progress d \<noteq> NaN
        \<and> js_le (progress d) (Num 1))
   \<and> (frames_confirmed d = Num a \<and> frames_required d = Num b \<and> 0 < b \<and> b \<le> a \<longrightarrow>
        progress d = Num 1)
   \<and> (frames_confirmed d = Infinity s \<and> frames_required d = Infinity t \<longrightarrow> progress d = NaN)"
proof -
  have a: "progress_bar d bx by' bw bh \<noteq> [] \<longleftrightarrow> \<not> confirmed d \<and> js_gt (frames_required d) (Num 0)"
    by (simp add: progress_bar_def Let_def)
  have c: "\<not> confirmed d \<and> js_gt (frames_required d) (Num 0) \<longrightarrow>
        frames_required d \<noteq> Num 0
        \<and> progress_bar d bx by' bw bh =
            [SetFillStyle ''rgba(255,255,255,0.25)'', BeginPath,
             RoundRect bx (js_add (js_add by' bh) (Num 6)) bw (Num 4) (Num 2), Fill,
             SetFillStyle ''#8b5cf6'', BeginPath,
             RoundRect bx (js_add (js_add by' bh) (Num 6))
               (js_mul bw (js_min (js_div (frames_confirmed d) (frames_required d)) (Num 1)))
               (Num 4) (Num 2),
             Fill]"
    using js_gt_zero_nonzero [of "frames_required d"]
    by (simp add: progress_bar_def progress_def Let_def)
  have e: "\<not> js_gt (progress d) (Num 1)"
    unfolding progress_def by (rule js_min_not_gt)
  from a c e draw_face_bar [of mt ow sx sy d] progress_finite [of d a b] progress_full [of d a b]
    progress_overflow [of d s t] progress_le_one [of d] progress_NaN_iff [of d]
  show ?thesis by blast
qed


theorem progress_bar_safe_witness:
  "\<not> confirmed carol \<and> js_gt (frames_required carol) (Num 0)
   \<and> progress_bar carol (Num 10) (Num 40) (Num 100) (Num 120) \<noteq> []
   \<and> frames_confirmed carol = Num 3 \<and> frames_required carol = Num 5 \<and> (0::rat) < 5
   \<and> progress carol = js_min (js_num (3 / 5)) (Num 1)
   \<and> js_le (progress carol) (Num 1)
   \<and> frames_confirmed (carol\<lparr>frames_confirmed := Num 7\<rparr>) = Num 7 \<and> (5::rat) \<le> 7
   \<and> progress (carol\<lparr>frames_confirmed := Num 7\<rparr>) = Num 1
   \<and> progress_bar (carol\<lparr>confirmed := True\<rparr>) (Num 10) (Num 40) (Num 100) (Num 120) = []
   \<and> js_gt (frames_required (carol\<lparr>frames_confirmed := Infinity Pos, frames_required := Infinity Pos\<rparr>)) (Num 0)
   \<and> progress (carol\<lparr>frames_confirmed := Infinity Pos, frames_required := Infinity Pos\<rparr>) = NaN
   \<and> \<not> js_gt (progress (carol\<lparr>frames_confirmed := Infinity Pos, frames_required := Infinity Pos\<rparr>)) (Num 1)"
proof -
  let ?c7 = "carol\<lparr>frames_confirmed := Num 7\<rparr>"
  let ?cc = "carol\<lparr>confirmed := True\<rparr>"
  let ?ci = "carol\<lparr>frames_confirmed := Infinity Pos, frames_required := Infinity Pos\<rparr>"
  have g: "\<not> confirmed carol \<and> js_gt (frames_required carol) (Num 0)"
    "frames_confirmed carol = Num 3 \<and> frames_required carol = Num 5 \<and> (0::rat) < 5"
    by (simp_all add: carol_def)
  have g7: "frames_confirmed ?c7 = Num 7 \<and> frames_required ?c7 = Num 5 \<and> (0::rat) < 5 \<and> (5::rat) \<le> 7"
    by (simp add: carol_def)
  have gc: "\<not> (\<not> confirmed ?cc \<and> js_gt (frames_required ?cc) (Num 0))" by simp
  have gi: "frames_confirmed ?ci = Infinity Pos \<and> frames_required ?ci = Infinity Pos"
    "js_gt (frames_required ?ci) (Num 0)" by simp_all
  from g progress_bar_safe [of carol "Num 10" "Num 40" "Num 100" "Num 120" measure8 "Num 640"
      "Num 1" "Num 1" 3 5 Pos Pos]
  have 1: "progress_bar carol (Num 10) (Num 40) (Num 100) (Num 120) \<noteq> []"
    "progress carol = js_min (js_num (3 / 5)) (Num 1)" "js_le (progress carol) (Num 1)" by blast+
  from g7 progress_bar_safe [of ?c7 "Num 10" "Num 40" "Num 100" "Num 120" measure8 "Num 640"
      "Num 1" "Num 1" 7 5 Pos Pos]
  have 2: "progress ?c7 = Num 1" by blast
  from gc progress_bar_safe [of ?cc "Num 10" "Num 40" "Num 100" "Num 120" measure8 "Num 640"
      "Num 1" "Num 1" 3 5 Pos Pos]
  have 3: "progress_bar ?cc (Num 10) (Num 40) (Num 100) (Num 120) = []" by blast
  from gi progress_bar_safe [of ?ci "Num 10" "Num 40" "Num 100" "Num 120" measure8 "Num 640"
      "Num 1" "Num 1" 3 5 Pos Pos]
  have 4: "progress ?ci = NaN" "\<not> js_gt (progress ?ci) (Num 1)" by blast+
  from g g7 gi 1 2 3 4 show ?thesis by blast
qed

subsection \<open>The shape of the messages\<close>

lemma round64_022: "round64 (11 / 500) = 3170534137668829 / 144115188075855872"
proof -
  have "round64 (11 / 500) = of_int 6341068275337658 * 2 powi (- 6 - 52)"
    by (rule round64_near) (simp_all add: powi_eval)
  also have "\<dots> = 3170534137668829 / 144115188075855872" by (simp add: powi_eval)
  finally show ?thesis .
qed

lemma round64_exp:
  assumes "0 < x" "2 powi e \<le> x" "x < 2 powi (e + 1)" "- 1022 \<le> e"
  shows "round64 x = of_int (round_even (x / 2 powi (e - 52))) * 2 powi (e - 52)"
proof -
  have "ilog2 x = e" using assms(1-3) by (rule ilog2_unique)
  then have "ulp_exp x = e - 52" using assms(1,4) by (simp add: ulp_exp_def)
  then show ?thesis using assms(1) by (simp add: round64_def)
qed

lemma round_even_font: "round_even (15852670688344145 / 2) = 7926335344172072"
  by (simp add: round_even_def Let_def)

lemma round64_font: "round64 (15852670688344145 / 1125899906842624) = 990791918021509 / 70368744177664"
proof -
  have "round64 (15852670688344145 / 1125899906842624)
        = of_int (round_even ((15852670688344145 / 1125899906842624) / 2 powi (3 - 52))) * 2 powi (3 - 52)"
    by (rule round64_exp) (simp_all add: powi_eval)
  also have "(15852670688344145 / 1125899906842624) / 2 powi (3 - 52) = (15852670688344145 / 2 :: rat)"
    by (simp add: powi_eval)
  also have "of_int (round_even (15852670688344145 / 2)) * 2 powi (3 - 52)
             = (990791918021509 / 70368744177664 :: rat)"
    by (simp add: round_even_font powi_eval)
  finally show ?thesis .
qed

lemma round64_3_5: "round64 (3 / 5) = 5404319552844595 / 9007199254740992"
proof -
  have "round64 (3 / 5) = of_int 5404319552844595 * 2 powi (- 1 - 52)"
    by (rule round64_near) (simp_all add: powi_eval)
  also have "\<dots> = 5404319552844595 / 9007199254740992" by (simp add: powi_eval)
  finally show ?thesis .
qed

lemma round64_bar: "round64 (135107988821114875 / 2251799813685248) = 60"
proof -
  have "round64 (135107988821114875 / 2251799813685248) = of_int 8444249301319680 * 2 powi (5 - 52)"
    by (rule round64_near) (simp_all add: powi_eval)
  also have "\<dots> = 60" by (simp add: powi_eval)
  finally show ?thesis .
qed

lemma js_num_022: "js_num (11 / 500) = Num (3170534137668829 / 144115188075855872)"
  by (simp add: js_num_def round64_022 Let_def)

lemma js_num_font: "js_num (15852670688344145 / 1125899906842624) = Num (990791918021509 / 70368744177664)"
  by (simp add: js_num_def round64_font Let_def)

lemma js_num_3_5: "js_num (3 / 5) = Num (5404319552844595 / 9007199254740992)"
  by (simp add: js_num_def round64_3_5 Let_def)

lemma js_num_bar: "js_num (135107988821114875 / 2251799813685248) = Num 60"
  by (simp add: js_num_def round64_bar Let_def)

lemmas draw_eval = draw_face_def progress_bar_def progress_def labelText_def measure8_def
  js_sub_def js_min_def Let_def show_nat_digit show_nat_more
  js_num_022 js_num_font js_num_3_5 js_num_bar

lemma draw_face_carol:
  "draw_face measure8 (Num 640) (Num 1) (Num 1) carol =
     [SetStrokeStyle ''#8b5cf6'', SetLineWidth (Num 2),
      StrokeRect (Num 10) (Num 40) (Num 100) (Num 120),
      SetFont ''700 14px Inter, system-ui, sans-serif'',
      SetFillStyle ''rgba(139, 92, 246, 0.85)'',
      BeginPath, RoundRect (Num 10) (Num 10) (Num 96) (Num 26) (Num 6), Fill,
      SetFillStyle ''#ffffff'',
      FillText ''Carol  75%'' (Num 18) (Num 28),
      SetFillStyle ''rgba(255,255,255,0.25)'', BeginPath,
      RoundRect (Num 10) (Num 166) (Num 100) (Num 4) (Num 2), Fill,
      SetFillStyle ''#8b5cf6'', BeginPath,
      RoundRect (Num 10) (Num 166) (Num 60) (Num 4) (Num 2), Fill]"
  by (simp add: draw_eval carol_def)

lemma neq_nth: "xs ! k \<noteq> ys ! k \<Longrightarrow> xs \<noteq> ys"
  by auto


lemma neq_length: "length xs \<noteq> length ys \<Longrightarrow> xs \<noteq> ys"
  by auto

lemma labelText_carol: "labelText carol = ''Carol  75%''"
  by (simp add: labelText_def carol_def show_nat_digit show_nat_more)

lemma labelText_carol_half: "labelText (carol\<lparr>confidence := Num (1 / 2)\<rparr>) = ''Carol  50%''"
  by (simp add: labelText_def carol_def show_nat_digit show_nat_more)

lemma sendFrame_ready:
  "wsRef s = Some w \<Longrightarrow> sockets s w = Some OPEN \<Longrightarrow> videoRef s = Some v \<Longrightarrow>
   canvasRef s = Some c \<Longrightarrow> has_context c \<Longrightarrow>
   outbox (sendFrame img s) = outbox s @ [(w, jpeg_frame img)]"
  by (simp add: sendFrame_def toDataURL_def jpeg_frame_def Let_def)

lemma outbox_step_jpeg:
  "list_all (\<lambda>m. jpeg_640_480 (snd m)) (outbox s) \<Longrightarrow>
   list_all (\<lambda>m. jpeg_640_480 (snd m)) (outbox (page_step e s))"
proof (cases e)
  case (Tick i img)
  assume "list_all (\<lambda>m. jpeg_640_480 (snd m)) (outbox s)"
  with Tick outbox_sendFrame [of img s] show ?thesis
    by (auto simp: jpeg_640_480_def jpeg_frame_def)
qed simp_all

lemma outbox_run_jpeg:
  "list_all (\<lambda>m. jpeg_640_480 (snd m)) (outbox s) \<Longrightarrow>
   list_all (\<lambda>m. jpeg_640_480 (snd m)) (outbox (page_run es s))"
  unfolding page_run_def by (induction es arbitrary: s) (simp_all add: outbox_step_jpeg)

lemma same_fields_consumed:
  assumes "same_fields f g"
  shows "add_marked f now prev = add_marked g now prev"
    and "markedStudents (on_face now f s) = markedStudents (on_face now g s)"
    and "sounds (on_face now f s) = sounds (on_face now g s)"
    and "hasConfirmed (f # fs) = hasConfirmed (g # fs)"
    and "draw_face mt ow sx sy f = draw_face mt ow sx sy g"
  using assms
  by (simp_all add: same_fields_def add_marked_def on_face_def hasConfirmed_def draw_face_def
      labelText_def progress_bar_def progress_def Let_def)


lemma field_read_name:
  "add_marked (carol\<lparr>name := ''Dave''\<rparr>) now [] \<noteq> add_marked carol now []"
  "draw_face mt ow sx sy (carol\<lparr>name := ''Dave''\<rparr>) \<noteq> draw_face mt ow sx sy carol"
  by (simp add: add_marked_def carol_def)
     (rule neq_nth [of _ 9], simp add: draw_face_def labelText_def carol_def Let_def)

lemma field_read_confidence:
  "draw_face mt ow sx sy (carol\<lparr>confidence := Num (1 / 2)\<rparr>) \<noteq> draw_face mt ow sx sy carol"
  by (rule neq_nth [of _ 9]) (simp add: draw_face_def Let_def labelText_carol labelText_carol_half)

lemma field_read_marked:
  "sounds (on_face now (carol\<lparr>marked := True\<rparr>) s) \<noteq> sounds (on_face now carol s)"
  by (simp add: on_face_def carol_def)

lemma on_face_carol:
  "on_face now carol page_init = page_init"
  "on_face now (carol\<lparr>marked := True\<rparr>) page_init =
     page_init\<lparr>sounds := 1, markedStudents := [\<lparr>ms_name = ''Carol'', ms_time = now\<rparr>]\<rparr>"
  by (simp_all add: on_face_def add_marked_def carol_def page_init_def)

lemma field_read_confirmed_guide:
  "hasConfirmed [carol\<lparr>confirmed := True\<rparr>] \<noteq> hasConfirmed [carol]"
  by (simp add: hasConfirmed_def carol_def)

lemma field_read_confirmed:
  "draw_face mt ow sx sy (carol\<lparr>confirmed := True\<rparr>) \<noteq> draw_face mt ow sx sy carol"
  by (rule neq_nth [of _ 0]) (simp add: draw_face_def carol_def Let_def)

lemma field_read_bbox:
  "draw_face mt ow (Num 1) (Num 1) (carol\<lparr>bbox := (bbox carol)\<lparr>bbox_x := Num 11\<rparr>\<rparr>)
     \<noteq> draw_face mt ow (Num 1) (Num 1) carol"
  "draw_face mt ow (Num 1) (Num 1) (carol\<lparr>bbox := (bbox carol)\<lparr>bbox_y := Num 41\<rparr>\<rparr>)
     \<noteq> draw_face mt ow (Num 1) (Num 1) carol"
  "draw_face mt ow (Num 1) (Num 1) (carol\<lparr>bbox := (bbox carol)\<lparr>bbox_w := Num 101\<rparr>\<rparr>)
     \<noteq> draw_face mt ow (Num 1) (Num 1) carol"
  "draw_face mt ow (Num 1) (Num 1) (carol\<lparr>bbox := (bbox carol)\<lparr>bbox_h := Num 121\<rparr>\<rparr>)
     \<noteq> draw_face mt ow (Num 1) (Num 1) carol"
  by (rule neq_nth [of _ 2], simp add: draw_face_def carol_def Let_def)+

lemma field_read_frames_confirmed:
  "draw_face mt ow (Num 1) (Num 1) (carol\<lparr>frames_confirmed := Num 5\<rparr>)
     \<noteq> draw_face mt ow (Num 1) (Num 1) carol"
  by (rule neq_nth [of _ 16])
     (simp add: draw_face_def progress_bar_def progress_def js_min_def carol_def Let_def
        js_num_3_5 js_num_bar)

lemma field_read_frames_required:
  "draw_face mt ow sx sy (carol\<lparr>frames_required := Num 0\<rparr>) \<noteq> draw_face mt ow sx sy carol"
  by (rule neq_length) (simp add: draw_face_def progress_bar_def carol_def Let_def)

text \<open>
  C6. Protocol message shape. When its guards pass, \<^verbatim>\<open>sendFrame\<close> sends exactly one
  message, the JPEG data URL of the 640 by 480 capture canvas holding the current
  picture; every message the page has ever sent is such a JPEG. A face object of a reply
  is consumed through the fields \<^verbatim>\<open>name\<close>, \<^verbatim>\<open>confidence\<close>, \<^verbatim>\<open>marked\<close>, \<^verbatim>\<open>confirmed\<close>,
  \<^verbatim>\<open>bbox {x, y, w, h}\<close>, \<^verbatim>\<open>frames_confirmed\<close> and \<^verbatim>\<open>frames_required\<close> and no other: two
  objects that agree on these, whatever else they carry, give the same log update, the
  same sound, the same guide state and the same drawing. Each of these fields is read by
  the two loops over the faces themselves. The drawing of a sample face is the list of
  canvas calls of the source, with the box, the label \<^verbatim>\<open>Carol  75%\<close> and a bar of three
  fifths of the width; changing \<^verbatim>\<open>name\<close>, \<^verbatim>\<open>confidence\<close>, \<^verbatim>\<open>confirmed\<close>, a coordinate of
  \<^verbatim>\<open>bbox\<close>, \<^verbatim>\<open>frames_confirmed\<close> or \<^verbatim>\<open>frames_required\<close> alone changes the drawing;
  \<^verbatim>\<open>marked\<close> decides whether the handler plays the sound and logs the \<^verbatim>\<open>name\<close>, and
  \<^verbatim>\<open>confirmed\<close> also colours the guide.
\<close>

theorem frame_and_face_shape:
  "(wsRef s = Some w \<and> sockets s w = Some OPEN \<and> videoRef s = Some v \<and> canvasRef s = Some c
      \<and> has_context c \<longrightarrow> outbox (sendFrame img s) = outbox s @ [(w, jpeg_frame img)])
   \<and> list_all (\<lambda>m. jpeg_640_480 (snd m)) (outbox (page_run es page_init))
   \<and> (same_fields f g \<longrightarrow>
        add_marked f now prev = add_marked g now prev
        \<and> markedStudents (on_face now f s) = markedStudents (on_face now g s)
        \<and> sounds (on_face now f s) = sounds (on_face now g s)
        \<and> hasConfirmed (f # fs) = hasConfirmed (g # fs)
        \<and> draw_face mt ow sx sy f = draw_face mt ow sx sy g)
   \<and> draw_face measure8 (Num 640) (Num 1) (Num 1) carol =
       [SetStrokeStyle ''#8b5cf6'', SetLineWidth (Num 2),
        StrokeRect (Num 10) (Num 40) (Num 100) (Num 120),
        SetFont ''700 14px Inter, system-ui, sans-serif'',
        SetFillStyle ''rgba(139, 92, 246, 0.85)'',
        BeginPath, RoundRect (Num 10) (Num 10) (Num 96) (Num 26) (Num 6), Fill,
        SetFillStyle ''#ffffff'',
        FillText ''Carol  75%'' (Num 18) (Num 28),
        SetFillStyle ''rgba(255,255,255,0.25)'', BeginPath,
        RoundRect (Num 10) (Num 166) (Num 100) (Num 4) (Num 2), Fill,
        SetFillStyle ''#8b5cf6'', BeginPath,
        RoundRect (Num 10) (Num 166) (Num 60) (Num 4) (Num 2), Fill]
   \<and> add_marked (carol\<lparr>name := ''Dave''\<rparr>) now [] \<noteq> add_marked carol now []
   \<and> draw_face mt ow sx sy (carol\<lparr>name := ''Dave''\<rparr>) \<noteq> draw_face mt ow sx sy carol
   \<and> draw_face mt ow sx sy (carol\<lparr>confidence := Num (1 / 2)\<rparr>) \<noteq> draw_face mt ow sx sy carol
   \<and> sounds (on_face now (carol\<lparr>marked := True\<rparr>) page_init) \<noteq> sounds (on_face now carol page_init)
   \<and> on_face now carol page_init = page_init
   \<and> on_face now (carol\<lparr>marked := True\<rparr>) page_init =
       page_init\<lparr>sounds := 1, markedStudents := [\<lparr>ms_name = ''Carol'', ms_time = now\<rparr>]\<rparr>
   \<and> hasConfirmed [carol\<lparr>confirmed := True\<rparr>] \<noteq> hasConfirmed [carol]
   \<and> draw_face mt ow sx sy (carol\<lparr>confirmed := True\<rparr>) \<noteq> draw_face mt ow sx sy carol
   \<and> draw_face mt ow (Num 1) (Num 1) (carol\<lparr>bbox := (bbox carol)\<lparr>bbox_x := Num 11\<rparr>\<rparr>)
       \<noteq> draw_face mt ow (Num 1) (Num 1) carol
   \<and> draw_face mt ow (Num 1) (Num 1) (carol\<lparr>bbox := (bbox carol)\<lparr>bbox_y := Num 41\<rparr>\<rparr>)
       \<noteq> draw_face mt ow (Num 1) (Num 1) carol
   \<and> draw_face mt ow (Num 1) (Num 1) (carol\<lparr>bbox := (bbox carol)\<lparr>bbox_w := Num 101\<rparr>\<rparr>)
       \<noteq> draw_face mt ow (Num 1) (Num 1) carol
   \<and> draw_face mt ow (Num 1) (Num 1) (carol\<lparr>bbox := (bbox carol)\<lparr>bbox_h := Num 121\<rparr>\<rparr>)
       \<noteq> draw_face mt ow (Num 1) (Num 1) carol
   \<and> draw_face mt ow (Num 1) (Num 1) (carol\<lparr>frames_confirmed := Num 5\<rparr>)
       \<noteq> draw_face mt ow (Num 1) (Num 1) carol
   \<and> draw_face mt ow sx sy (carol\<lparr>frames_required := Num 0\<rparr>) \<noteq> draw_face mt ow sx sy carol"
proof -
  have a: "wsRef s = Some w \<and> sockets s w = Some OPEN \<and> videoRef s = Some v \<and> canvasRef s = Some c
      \<and> has_context c \<longrightarrow> outbox (sendFrame img s) = outbox s @ [(w, jpeg_frame img)]"
    using sendFrame_ready [of s w v c img] by blast
  have b: "list_all (\<lambda>m. jpeg_640_480 (snd m)) (outbox (page_run es page_init))"
    using outbox_run_jpeg [of page_init es] by (simp add: page_init_def)
  have c: "same_fields f g \<longrightarrow>
        add_marked f now prev = add_marked g now prev
        \<and> markedStudents (on_face now f s) = markedStudents (on_face now g s)
        \<and> sounds (on_face now f s) = sounds (on_face now g s)
        \<and> hasConfirmed (f # fs) = hasConfirmed (g # fs)
        \<and> draw_face mt ow sx sy f = draw_face mt ow sx sy g"
    using same_fields_consumed [of f g] by blast
  show ?thesis
    by (intro conjI;
        fact a b c draw_face_carol field_read_name field_read_confidence field_read_marked
          on_face_carol field_read_confirmed_guide field_read_confirmed field_read_bbox field_read_frames_confirmed
          field_read_frames_required)
qed


theorem frame_and_face_shape_witness:
  "wsRef (page_run [StartSession (Some [Live]) True ''09:00:00'', SocketOpened 2] (page_init :: nat page)) = Some 2
   \<and> sockets (page_run [StartSession (Some [Live]) True ''09:00:00'', SocketOpened 2] (page_init :: nat page)) 2 = Some OPEN
   \<and> outbox (sendFrame [1, 2, 3]
         (page_run [StartSession (Some [Live]) True ''09:00:00'', SocketOpened 2] (page_init :: nat page)))
       = [(2, jpeg_frame [1, 2, 3])]
   \<and> same_fields (DetectedFace.extend carol (7::nat)) (DetectedFace.extend carol (8::nat))
   \<and> DetectedFace.extend carol (7::nat) \<noteq> DetectedFace.extend carol (8::nat)
   \<and> draw_face measure8 (Num 640) (Num 1) (Num 1) (DetectedFace.extend carol (7::nat))
       = draw_face measure8 (Num 640) (Num 1) (Num 1) (DetectedFace.extend carol (8::nat))
   \<and> draw_face measure8 (Num 640) (Num 1) (Num 1) carol ! 9 = FillText ''Carol  75%'' (Num 18) (Num 28)
   \<and> draw_face measure8 (Num 640) (Num 1) (Num 1) carol ! 16
       = RoundRect (Num 10) (Num 166) (Num 60) (Num 4) (Num 2)"
  using frame_and_face_shape [of
      "page_run [StartSession (Some [Live]) True ''09:00:00'', SocketOpened 2] (page_init :: nat page)"
      2 "\<lparr>srcObject = Some 1\<rparr>" "\<lparr>width = 640, height = 480, has_context = True, content = []\<rparr>"
      "[1, 2, 3]" "[]" "DetectedFace.extend carol (7::nat)" "DetectedFace.extend carol (8::nat)"
      "''09:00:01''" "[]" "[]" measure8 "Num 640" "Num 1" "Num 1"]
  by (simp add: page_eval same_fields_def DetectedFace.extend_def carol_def)

subsection \<open>The confirmation engine: steps of a track\<close>

lemma track_run_snoc: "track_run p n (obs @ [ob]) = track_step p (track_run p n obs) ob"
  by (simp add: track_run_def)

lemma track_step_required [simp]: "t_frames_required (track_step p t ob) = t_frames_required t"
  by (simp add: track_step_def Let_def split: track_state.splits)

lemma confirm_only_from_verifying:
  assumes "t_state t \<noteq> CONFIRMED" "t_state (track_step p t ob) = CONFIRMED"
  shows "t_state t = VERIFYING \<and> best ob = t_identity t \<and> best ob \<noteq> None
         \<and> match_threshold p \<le> conf ob \<and> live p ob
         \<and> t_frames_required t \<le> t_frames_confirmed t + 1
         \<and> t_identity (track_step p t ob) = best ob
         \<and> t_frames_confirmed (track_step p t ob) = t_frames_confirmed t + 1"
  using assms
  by (cases "t_state t") ((auto simp: track_step_def Let_def split: if_splits)[1], (metis)?)+

lemmas track_eval = track_run_def track_step_def new_track_def scenario_engine_def sighting_def
  unknown_face_def four_frames_def fifth_frame_def live_def Let_def counts_for_def

subsection \<open>Confirmation needs sustained evidence\<close>

lemma verifying_start:
  assumes "best ob = Some i" "match_threshold p \<le> conf ob" "live p ob"
  shows "verifying_for p (obs @ [ob]) (t\<lparr>t_identity := Some i, t_frames_confirmed := 1\<rparr>)"
  unfolding verifying_for_def
  using assms by (intro exI [of _ i] exI [of _ obs] exI [of _ "[ob]"]) (simp add: counts_for_def)

lemma verifying_next:
  assumes v: "verifying_for p obs t"
    and ob: "best ob = t_identity t" "match_threshold p \<le> conf ob" "live p ob"
  shows "verifying_for p (obs @ [ob])
           (t\<lparr>t_identity := best ob, t_frames_confirmed := t_frames_confirmed t + 1\<rparr>)"
proof -
  from v obtain i pre w where w: "t_identity t = Some i" "obs = pre @ w"
    "length w = t_frames_confirmed t" "1 \<le> t_frames_confirmed t"
    "list_all (counts_for p i) w" "list_all (live p) w"
    unfolding verifying_for_def by blast
  show ?thesis
    unfolding verifying_for_def
    using w ob
    by (intro exI [of _ i] exI [of _ pre] exI [of _ "w @ [ob]"]) (simp add: counts_for_def)
qed

lemma confirm_run:
  assumes v: "verifying_for p obs t"
    and ob: "best ob = t_identity t" "match_threshold p \<le> conf ob" "live p ob"
    and k: "n \<le> t_frames_confirmed t + 1"
  shows "\<exists>i pre w. obs @ [ob] = pre @ w \<and> length w = n
           \<and> list_all (counts_for p i) w \<and> list_all (live p) w \<and> best ob = Some i"
proof -
  from v obtain i pre w where w: "t_identity t = Some i" "obs = pre @ w"
    "length w = t_frames_confirmed t"
    "list_all (counts_for p i) w" "list_all (live p) w"
    unfolding verifying_for_def by blast
  let ?r = "w @ [ob]"
  let ?m = "length ?r - n"
  have all: "list_all (counts_for p i) ?r" "list_all (live p) ?r"
    using w ob by (simp_all add: counts_for_def)
  have "?r = take ?m ?r @ drop ?m ?r" by (rule append_take_drop_id [symmetric])
  then have "pre @ ?r = (pre @ take ?m ?r) @ drop ?m ?r" by (metis append_assoc)
  then have "obs @ [ob] = (pre @ take ?m ?r) @ drop ?m ?r" using w(2) by (metis append_assoc)
  moreover have "length (drop ?m ?r) = n" using w(3) k by simp
  moreover have "list_all (counts_for p i) (drop ?m ?r)" "list_all (live p) (drop ?m ?r)"
    using all by (auto simp: list_all_iff dest: in_set_dropD)
  moreover have "best ob = Some i" using ob(1) w(1) by simp
  ultimately show ?thesis by blast
qed

lemma track_inv_step:
  assumes "track_inv p n obs t"
  shows "track_inv p n (obs @ [ob]) (track_step p t ob)"
proof (cases "t_state t")
  case DETECTED
  have nc: "t_state (track_step p t ob) \<noteq> CONFIRMED"
    using DETECTED by (simp add: track_step_def Let_def)
  show ?thesis
  proof (cases "t_state (track_step p t ob) = VERIFYING")
    case True
    with DETECTED have b: "best ob \<noteq> None" and c: "match_threshold p \<le> conf ob"
      and l: "live p ob"
      and fc: "t_frames_confirmed (track_step p t ob) = 1"
      and id: "t_identity (track_step p t ob) = best ob"
      by (simp_all add: track_step_def Let_def split: if_splits)
    from b obtain i where i: "best ob = Some i" by blast
    from verifying_start [OF i c l, of obs "track_step p t ob"] fc id i
    have "verifying_for p (obs @ [ob]) (track_step p t ob)"
      by (simp add: verifying_for_def)
    with assms nc show ?thesis by (simp add: track_inv_def)
  next
    case False
    with assms nc show ?thesis by (simp add: track_inv_def)
  qed
next
  case VERIFYING
  from assms VERIFYING have v: "verifying_for p obs t" and n: "t_frames_required t = n"
    by (simp_all add: track_inv_def)
  consider (ver) "t_state (track_step p t ob) = VERIFYING"
    | (con) "t_state (track_step p t ob) = CONFIRMED"
    | (oth) "t_state (track_step p t ob) \<noteq> VERIFYING" "t_state (track_step p t ob) \<noteq> CONFIRMED"
    by blast
  then show ?thesis
  proof cases
    case ver
    with VERIFYING have ob: "best ob = t_identity t" "match_threshold p \<le> conf ob" "live p ob"
      and fc: "t_frames_confirmed (track_step p t ob) = t_frames_confirmed t + 1"
      and id: "t_identity (track_step p t ob) = best ob"
      by (auto simp: track_step_def Let_def split: if_splits) metis+
    from verifying_next [OF v ob] fc id
    have "verifying_for p (obs @ [ob]) (track_step p t ob)"
      by (simp add: verifying_for_def)
    with n ver show ?thesis by (simp add: track_inv_def)
  next
    case con
    from VERIFYING have "t_state t \<noteq> CONFIRMED" by simp
    from confirm_only_from_verifying [OF this con]
    have ob: "best ob = t_identity t" "match_threshold p \<le> conf ob" "live p ob"
      and k: "t_frames_required t \<le> t_frames_confirmed t + 1"
      and id: "t_identity (track_step p t ob) = best ob" by simp_all
    from k n have "n \<le> t_frames_confirmed t + 1" by simp
    from confirm_run [OF v ob this] obtain i pre w where
      "obs @ [ob] = pre @ w @ []" "length w = n" "list_all (counts_for p i) w"
      "list_all (live p) w" "best ob = Some i" by auto
    with id have "confirmed_by p n (obs @ [ob]) (track_step p t ob)"
      unfolding confirmed_by_def by metis
    with n con show ?thesis by (simp add: track_inv_def)
  next
    case oth
    with n show ?thesis by (simp add: track_inv_def)
  qed
next
  case CONFIRMED
  with assms obtain i pre w post where w: "t_identity t = Some i" "obs = pre @ w @ post"
    "length w = n" "list_all (counts_for p i) w" "list_all (live p) w"
    unfolding track_inv_def confirmed_by_def by blast
  from w(2) have "obs @ [ob] = pre @ w @ (post @ [ob])" by simp
  with w have "confirmed_by p n (obs @ [ob]) t" unfolding confirmed_by_def by blast
  with CONFIRMED assms show ?thesis
    by (simp add: track_inv_def track_step_def Let_def confirmed_by_def)
next
  case REJECTED
  with assms show ?thesis by (simp add: track_inv_def track_step_def Let_def)
qed

lemma track_inv_run: "track_inv p n obs (track_run p n obs)"
proof (induction obs rule: rev_induct)
  case Nil
  show ?case by (simp add: track_inv_def track_run_def new_track_def)
next
  case (snoc ob obs)
  then show ?case by (simp add: track_run_snoc track_inv_step)
qed

lemma confirm_transition:
  assumes inv: "track_inv p n obs t"
    and c: "t_state t \<noteq> CONFIRMED" "t_state (track_step p t ob) = CONFIRMED"
  shows "\<exists>i pre w. obs @ [ob] = pre @ w \<and> length w = n
           \<and> list_all (counts_for p i) w \<and> list_all (live p) w
           \<and> t_identity (track_step p t ob) = Some i"
proof -
  from confirm_only_from_verifying [OF c]
  have s: "t_state t = VERIFYING" and ob: "best ob = t_identity t" "match_threshold p \<le> conf ob" "live p ob"
    and k: "t_frames_required t \<le> t_frames_confirmed t + 1"
    and id: "t_identity (track_step p t ob) = best ob" by simp_all
  from inv s have n: "t_frames_required t = n" and v: "verifying_for p obs t"
    by (simp_all add: track_inv_def)
  from k n have "n \<le> t_frames_confirmed t + 1" by simp
  from confirm_run [OF v ob this] id show ?thesis by simp
qed

lemma confirmed_run:
  assumes "t_state (track_run p n obs) = CONFIRMED"
  shows "\<exists>i pre w post. obs = pre @ w @ post \<and> length w = n
           \<and> list_all (counts_for p i) w \<and> list_all (live p) w
           \<and> t_identity (track_run p n obs) = Some i"
  using track_inv_run [of p n obs] assms unfolding track_inv_def confirmed_by_def by blast

lemma short_never_confirms:
  assumes "length obs < n"
  shows "t_state (track_run p n obs) \<noteq> CONFIRMED"
proof
  assume "t_state (track_run p n obs) = CONFIRMED"
  from confirmed_run [OF this] obtain pre w post where "obs = pre @ w @ post" "length w = n"
    by blast
  with assms show False by simp
qed

lemma interrupted_resets:
  assumes "t_state t = VERIFYING"
    and "best ob \<noteq> t_identity t \<or> conf ob < match_threshold p \<or> \<not> live p ob"
  shows "t_state (track_step p t ob) \<noteq> CONFIRMED \<and> t_state (track_step p t ob) \<noteq> VERIFYING
         \<and> t_frames_confirmed (track_step p t ob) = 0"
  using assms by (auto simp: track_step_def Let_def)

lemma not_evidence_not_confirming:
  assumes "t_state t \<noteq> CONFIRMED"
    and "best ob = None \<or> best ob \<noteq> t_identity t \<or> conf ob < match_threshold p \<or> \<not> live p ob"
  shows "t_state (track_step p t ob) \<noteq> CONFIRMED"
  using assms confirm_only_from_verifying [of t p ob] by auto

lemma scenario_four: "t_state (track_run scenario_engine 5 four_frames) = VERIFYING"
  by (simp add: track_eval)

lemma scenario_five: "t_state (track_run scenario_engine 5 (four_frames @ [fifth_frame])) = CONFIRMED"
  by (simp add: track_eval)

lemma scenario_noisy:
  "t_state (track_run scenario_engine 5 noisy_start) = VERIFYING"
  "t_frames_confirmed (track_run scenario_engine 5 noisy_start) = 4"
  by (simp_all add: track_eval noisy_start_def)

text \<open>
  C2. Confirmation requires sustained evidence, on the state machine of the
  specification. A track of \<open>frames_required = n\<close> reaches CONFIRMED only on a frame that
  ends a contiguous run of \<open>n\<close> frames which all have the same known best identity at a
  confidence at or above the match threshold and all pass liveness; the confirmed
  identity is that of the run. A track that is CONFIRMED has such a run of \<open>n\<close> frames
  somewhere in its history, so a track that has seen fewer than \<open>n\<close> frames is never
  CONFIRMED. A frame that has no known identity, changes the identity, falls below the
  threshold or fails liveness never is the frame on which a track becomes CONFIRMED, and
  it takes a verifying track out of VERIFYING with its count at 0.
\<close>

theorem confirmation_needs_run:
  "(t_state (track_run p n obs) \<noteq> CONFIRMED \<and> t_state (track_run p n (obs @ [ob])) = CONFIRMED \<longrightarrow>
      (\<exists>i pre w. obs @ [ob] = pre @ w \<and> length w = n
           \<and> list_all (counts_for p i) w \<and> list_all (live p) w
           \<and> t_identity (track_run p n (obs @ [ob])) = Some i))
   \<and> (t_state (track_run p n obs) = CONFIRMED \<longrightarrow>
        (\<exists>i pre w post. obs = pre @ w @ post \<and> length w = n
           \<and> list_all (counts_for p i) w \<and> list_all (live p) w
           \<and> t_identity (track_run p n obs) = Some i))
   \<and> (length obs < n \<longrightarrow> t_state (track_run p n obs) \<noteq> CONFIRMED)
   \<and> (t_state t \<noteq> CONFIRMED
        \<and> (best ob = None \<or> best ob \<noteq> t_identity t \<or> conf ob < match_threshold p \<or> \<not> live p ob) \<longrightarrow>
        t_state (track_step p t ob) \<noteq> CONFIRMED)
   \<and> (t_state t = VERIFYING
        \<and> (best ob \<noteq> t_identity t \<or> conf ob < match_threshold p \<or> \<not> live p ob) \<longrightarrow>
        t_state (track_step p t ob) \<noteq> CONFIRMED \<and> t_state (track_step p t ob) \<noteq> VERIFYING
        \<and> t_frames_confirmed (track_step p t ob) = 0)"
proof -
  have a: "t_state (track_run p n obs) \<noteq> CONFIRMED \<and> t_state (track_run p n (obs @ [ob])) = CONFIRMED \<longrightarrow>
      (\<exists>i pre w. obs @ [ob] = pre @ w \<and> length w = n
           \<and> list_all (counts_for p i) w \<and> list_all (live p) w
           \<and> t_identity (track_run p n (obs @ [ob])) = Some i)"
    using confirm_transition [OF track_inv_run [of p n obs], of ob] by (simp add: track_run_snoc)
  show ?thesis
    using a confirmed_run [of p n obs] short_never_confirms [of obs n p]
      not_evidence_not_confirming [of t ob p] interrupted_resets [of t ob p]
    by (intro conjI impI) blast+
qed


theorem confirmation_needs_run_witness:
  "t_state (track_run scenario_engine 5 four_frames) \<noteq> CONFIRMED
   \<and> t_state (track_run scenario_engine 5 (four_frames @ [fifth_frame])) = CONFIRMED
   \<and> (\<exists>i pre w. four_frames @ [fifth_frame] = pre @ w \<and> length w = 5
         \<and> list_all (counts_for scenario_engine i) w \<and> list_all (live scenario_engine) w
         \<and> t_identity (track_run scenario_engine 5 (four_frames @ [fifth_frame])) = Some i)
   \<and> (\<exists>i pre w post. four_frames @ [fifth_frame] = pre @ w @ post \<and> length w = 5
         \<and> list_all (counts_for scenario_engine i) w \<and> list_all (live scenario_engine) w
         \<and> t_identity (track_run scenario_engine 5 (four_frames @ [fifth_frame])) = Some i)
   \<and> length four_frames < 5
   \<and> t_state (track_run scenario_engine 5 four_frames) = VERIFYING
   \<and> conf (sighting 1 (4 / 10) (9 / 10)) < match_threshold scenario_engine
   \<and> t_state (track_step scenario_engine (track_run scenario_engine 5 four_frames)
        (sighting 1 (4 / 10) (9 / 10))) = DETECTED
   \<and> t_frames_confirmed (track_step scenario_engine (track_run scenario_engine 5 four_frames)
        (sighting 1 (4 / 10) (9 / 10))) = 0
   \<and> length noisy_start = 5 \<and> \<not> live scenario_engine (hd noisy_start)
   \<and> list_all (live scenario_engine) (tl noisy_start)
   \<and> list_all (counts_for scenario_engine 1) noisy_start
   \<and> t_state (track_run scenario_engine 5 noisy_start) = VERIFYING
   \<and> t_frames_confirmed (track_run scenario_engine 5 noisy_start) = 4"
proof -
  let ?low = "sighting 1 (4 / 10) (9 / 10)"
  let ?t = "track_run scenario_engine 5 four_frames"
  have d: "t_state (track_step scenario_engine ?t ?low) = DETECTED"
    by (simp add: track_eval)
  have c: "conf ?low < match_threshold scenario_engine"
    by (simp add: track_eval)
  have l: "length four_frames < 5" by (simp add: four_frames_def)
  have n: "length noisy_start = 5 \<and> \<not> live scenario_engine (hd noisy_start)
     \<and> list_all (live scenario_engine) (tl noisy_start)
     \<and> list_all (counts_for scenario_engine 1) noisy_start"
    by (simp add: track_eval noisy_start_def)
  have 1: "\<exists>i pre w. four_frames @ [fifth_frame] = pre @ w \<and> length w = 5
         \<and> list_all (counts_for scenario_engine i) w \<and> list_all (live scenario_engine) w
         \<and> t_identity (track_run scenario_engine 5 (four_frames @ [fifth_frame])) = Some i"
    using confirmation_needs_run [of scenario_engine 5 four_frames fifth_frame ?t]
      scenario_four scenario_five by simp
  have 2: "\<exists>i pre w post. four_frames @ [fifth_frame] = pre @ w @ post \<and> length w = 5
         \<and> list_all (counts_for scenario_engine i) w \<and> list_all (live scenario_engine) w
         \<and> t_identity (track_run scenario_engine 5 (four_frames @ [fifth_frame])) = Some i"
    using confirmation_needs_run [of scenario_engine 5 "four_frames @ [fifth_frame]" fifth_frame ?t]
      scenario_five by blast
  have 3: "t_state ?t \<noteq> CONFIRMED"
    using confirmation_needs_run [of scenario_engine 5 four_frames fifth_frame ?t] l by blast
  have 4: "t_frames_confirmed (track_step scenario_engine ?t ?low) = 0"
    using confirmation_needs_run [of scenario_engine 5 four_frames ?low ?t] scenario_four c
    by blast
  from 1 2 3 4 l c d n scenario_four scenario_five scenario_noisy
  show ?thesis by blast
qed

subsection \<open>Unknown never confirms\<close>

lemma nearest_empty [simp]: "match_face p prev [] = (None, 0)"
  by (simp add: match_face_def)

lemma match_face_far:
  "nearest prev g = Some (i, d) \<Longrightarrow> rejection p < d \<Longrightarrow> match_face p prev g = (None, 0)"
  by (simp add: match_face_def confidence_of_def)

lemma unknown_step:
  "best ob = None \<Longrightarrow> t_state t = DETECTED \<or> t_state t = REJECTED \<Longrightarrow>
   (t_state (track_step p t ob) = DETECTED \<or> t_state (track_step p t ob) = REJECTED)
   \<and> t_identity (track_step p t ob) = None"
  by (auto simp: track_step_def Let_def)

lemma unknown_run:
  "list_all (\<lambda>ob. best ob = None) obs \<Longrightarrow>
   t_state (track_run p n obs) = DETECTED \<or> t_state (track_run p n obs) = REJECTED"
proof (induction obs rule: rev_induct)
  case Nil
  show ?case by (simp add: track_run_def new_track_def)
next
  case (snoc ob obs)
  then have "best ob = None"
    and "t_state (track_run p n obs) = DETECTED \<or> t_state (track_run p n obs) = REJECTED"
    by simp_all
  from unknown_step [OF this] show ?case by (simp add: track_run_snoc)
qed

lemma quiet_detection:
  assumes "quiet s" "best (snd det) = None"
  shows "\<exists>s1 r. process_detection p n det (s, events, reports) = (s1, events, reports @ [r])
           \<and> quiet s1 \<and> unknown_report r \<and> marked_ids s1 = marked_ids s \<and> closed s1 = closed s"
proof -
  obtain k ob where det: "det = (k, ob)" by (cases det)
  let ?t = "case tracks s k of None \<Rightarrow> new_track n | Some t0 \<Rightarrow> t0"
  have t: "t_state ?t = DETECTED \<or> t_state ?t = REJECTED"
    using assms(1) by (auto simp: quiet_def new_track_def split: option.splits)
  from assms(2) det have ob: "best ob = None" by simp
  from unknown_step [OF ob t, of p]
  have st: "t_state (track_step p ?t ob) = DETECTED \<or> t_state (track_step p ?t ob) = REJECTED"
    and id: "t_identity (track_step p ?t ob) = None" by simp_all
  from st have nc: "t_state (track_step p ?t ob) \<noteq> CONFIRMED" by auto
  have q: "quiet (s\<lparr>tracks := (tracks s)(k \<mapsto> track_step p ?t ob)\<rparr>)"
    using assms(1) st by (auto simp: quiet_def)
  show ?thesis
    using q id nc
    by (simp add: det process_detection_def Let_def unknown_report_def)
qed

lemma quiet_fold:
  assumes "quiet s" "list_all (\<lambda>d. best (snd d) = None) dets" "list_all unknown_report reports"
  shows "\<exists>s1 rs. fold (process_detection p n) dets (s, events, reports) = (s1, events, rs)
           \<and> quiet s1 \<and> list_all unknown_report rs \<and> marked_ids s1 = marked_ids s
           \<and> closed s1 = closed s"
  using assms
proof (induction dets arbitrary: s reports)
  case Nil
  then show ?case by simp
next
  case (Cons d dets)
  from Cons.prems have d: "best (snd d) = None" and ds: "list_all (\<lambda>d. best (snd d) = None) dets"
    by simp_all
  from quiet_detection [OF Cons.prems(1) d, of p n events reports]
  obtain s1 r where s1: "process_detection p n d (s, events, reports) = (s1, events, reports @ [r])"
    "quiet s1" "unknown_report r" "marked_ids s1 = marked_ids s" "closed s1 = closed s" by blast
  from Cons.prems(3) s1(3) have "list_all unknown_report (reports @ [r])" by simp
  from Cons.IH [OF s1(2) ds this] s1(1,4,5) show ?case by simp
qed

lemma quiet_age: "quiet s \<Longrightarrow> quiet (s\<lparr>tracks := age_tracks p ks (tracks s)\<rparr>)"
  by (auto simp: quiet_def age_tracks_def split: option.splits if_splits)

lemma quiet_frame:
  assumes "quiet s" "list_all (\<lambda>d. best (snd d) = None) dets"
  shows "\<exists>s1 rs. process_frame p n dets s = (s1, [], rs) \<and> quiet s1 \<and> list_all unknown_report rs
           \<and> marked_ids s1 = marked_ids s"
proof (cases "closed s")
  case True
  with assms(1) show ?thesis by (simp add: process_frame_def)
next
  case False
  from quiet_fold [OF assms, of "[]" p n "[]"]
  obtain s1 rs where f: "fold (process_detection p n) dets (s, [], []) = (s1, [], rs)"
    "quiet s1" "list_all unknown_report rs" "marked_ids s1 = marked_ids s" by auto
  from f(2) have "quiet (s1\<lparr>tracks := age_tracks p (map fst dets) (tracks s1)\<rparr>)" by (rule quiet_age)
  with False f show ?thesis by (simp add: process_frame_def)
qed

lemma quiet_frames:
  assumes "quiet s" "list_all (list_all (\<lambda>d. best (snd d) = None)) frames"
  shows "snd (process_frames p n frames s) = [] \<and> quiet (fst (process_frames p n frames s))
         \<and> marked_ids (fst (process_frames p n frames s)) = marked_ids s"
  using assms
proof (induction frames arbitrary: s)
  case Nil
  then show ?case by simp
next
  case (Cons dets frames)
  from Cons.prems have d: "list_all (\<lambda>d. best (snd d) = None) dets"
    and fs: "list_all (list_all (\<lambda>d. best (snd d) = None)) frames" by simp_all
  from quiet_frame [OF Cons.prems(1) d, of p n]
  obtain s1 rs where s1: "process_frame p n dets s = (s1, [], rs)" "quiet s1"
    "marked_ids s1 = marked_ids s" by blast
  from Cons.IH [OF s1(2) fs] s1(1,3) show ?case by (simp split: prod.splits)
qed


lemma unknown_detection_silent:
  assumes "best (snd det) = None"
  shows "fst (snd (process_detection p n det (s, events, reports))) = events
         \<and> marked_ids (fst (process_detection p n det (s, events, reports))) = marked_ids s"
proof -
  obtain k ob where det: "det = (k, ob)" by (cases det)
  let ?t = "case tracks s k of None \<Rightarrow> new_track n | Some t0 \<Rightarrow> t0"
  from assms det have ob: "best ob = None" by simp
  have "\<not> (t_state ?t \<noteq> CONFIRMED \<and> t_state (track_step p ?t ob) = CONFIRMED)"
    using confirm_only_from_verifying [of ?t p ob] ob by blast
  then show ?thesis
    by (auto simp: det process_detection_def Let_def split: option.splits)
qed

text \<open>
  C3. Unknown never confirms. A track whose best match is Unknown on every frame is never
  VERIFYING and never CONFIRMED, however many frames it has; the matcher reports Unknown
  for an empty gallery and for a least distance beyond the rejection distance; a
  detection whose best match is Unknown emits no mark event and marks nobody, whatever
  the state of its track and of the session; and a session all of whose detections are
  Unknown emits no mark event in any of its frames, keeps every track out of VERIFYING
  and CONFIRMED, and reports every face as Unknown with \<open>marked\<close> and \<open>confirmed\<close> false.
\<close>

theorem unknown_never_confirms:
  "(list_all (\<lambda>ob. best ob = None) obs \<longrightarrow>
      t_state (track_run p n obs) \<noteq> CONFIRMED \<and> t_state (track_run p n obs) \<noteq> VERIFYING)
   \<and> match_face p prev [] = (None, 0)
   \<and> (nearest prev g = Some (i, d) \<and> rejection p < d \<longrightarrow> fst (match_face p prev g) = None)
   \<and> (best (snd det) = None \<longrightarrow>
        fst (snd (process_detection p n det (s, events, reports))) = events
        \<and> marked_ids (fst (process_detection p n det (s, events, reports))) = marked_ids s)
   \<and> (quiet s \<and> list_all (\<lambda>d. best (snd d) = None) dets \<longrightarrow>
        fst (snd (process_frame p n dets s)) = []
        \<and> list_all unknown_report (snd (snd (process_frame p n dets s))))
   \<and> (list_all (list_all (\<lambda>d. best (snd d) = None)) frames \<longrightarrow>
        snd (process_frames p n frames new_session) = []
        \<and> quiet (fst (process_frames p n frames new_session))
        \<and> marked_ids (fst (process_frames p n frames new_session)) = [])"
proof -
  have a: "list_all (\<lambda>ob. best ob = None) obs \<longrightarrow>
      t_state (track_run p n obs) \<noteq> CONFIRMED \<and> t_state (track_run p n obs) \<noteq> VERIFYING"
    using unknown_run [of obs p n] by auto
  have b: "nearest prev g = Some (i, d) \<and> rejection p < d \<longrightarrow> fst (match_face p prev g) = None"
    using match_face_far [of prev g i d p] by auto
  have c: "best (snd det) = None \<longrightarrow>
        fst (snd (process_detection p n det (s, events, reports))) = events
        \<and> marked_ids (fst (process_detection p n det (s, events, reports))) = marked_ids s"
    using unknown_detection_silent [of det p n s events reports] by blast
  have d: "quiet s \<and> list_all (\<lambda>d. best (snd d) = None) dets \<longrightarrow>
        fst (snd (process_frame p n dets s)) = []
        \<and> list_all unknown_report (snd (snd (process_frame p n dets s)))"
    using quiet_frame [of s dets p n] by auto
  have "quiet new_session" by (simp add: quiet_def new_session_def)
  from quiet_frames [OF this, of frames p n]
  have e: "list_all (list_all (\<lambda>d. best (snd d) = None)) frames \<longrightarrow>
        snd (process_frames p n frames new_session) = []
        \<and> quiet (fst (process_frames p n frames new_session))
        \<and> marked_ids (fst (process_frames p n frames new_session)) = []"
    by (simp add: new_session_def)
  from a b c d e show ?thesis by simp
qed

theorem unknown_never_confirms_witness:
  "list_all (\<lambda>ob. best ob = None) [unknown_face (9 / 10), unknown_face (1 / 10), unknown_face (9 / 10)]
   \<and> t_state (track_run scenario_engine 5
         [unknown_face (9 / 10), unknown_face (1 / 10), unknown_face (9 / 10)]) = DETECTED
   \<and> nearest None far_gallery = Some (1, 3 / 2) \<and> rejection scenario_engine < 3 / 2
   \<and> fst (match_face scenario_engine None far_gallery) = None
   \<and> best (snd (0 :: nat, unknown_face (9 / 10))) = None
   \<and> quiet new_session
   \<and> list_all (list_all (\<lambda>d. best (snd d) = None)) unknown_frames
   \<and> snd (process_frames scenario_engine 5 unknown_frames new_session) = []
   \<and> marked_ids (fst (process_frames scenario_engine 5 unknown_frames new_session)) = []
   \<and> list_all unknown_report
        (snd (snd (process_frame scenario_engine 5 (hd unknown_frames) new_session)))"
proof -
  have a: "list_all (\<lambda>ob. best ob = None) [unknown_face (9 / 10), unknown_face (1 / 10), unknown_face (9 / 10)]"
    by (simp add: unknown_face_def)
  have b: "t_state (track_run scenario_engine 5
         [unknown_face (9 / 10), unknown_face (1 / 10), unknown_face (9 / 10)]) = DETECTED"
    by (simp add: track_eval)
  have c: "nearest None far_gallery = Some (1, 3 / 2)" "rejection scenario_engine < 3 / 2"
    by (simp_all add: far_gallery_def scenario_engine_def)
  have d: "quiet new_session" by (simp add: quiet_def new_session_def)
  have e: "list_all (list_all (\<lambda>d. best (snd d) = None)) unknown_frames"
    "list_all (\<lambda>d. best (snd d) = None) (hd unknown_frames)"
    by (simp_all add: unknown_frames_def unknown_face_def)
  from a b c d e
    unknown_never_confirms [of "[unknown_face (9 / 10), unknown_face (1 / 10), unknown_face (9 / 10)]"
      scenario_engine 5 None far_gallery 1 "3 / 2" "(0, unknown_face (9 / 10))" new_session "[]" "[]"
      "hd unknown_frames" unknown_frames]
  show ?thesis by (simp add: unknown_face_def)
qed

subsection \<open>Two-step delete\<close>

lemma sl_run_request:
  "ApiDelete i \<in> set (snd (sl_run es s)) \<Longrightarrow>
   (deleteConfirm s = Some i \<and> 1 \<le> clicks i es) \<or> 2 \<le> clicks i es"
proof (induction es arbitrary: s)
  case Nil
  then show ?case by simp
next
  case (Cons e es)
  obtain s1 out1 where st: "sl_step e s = (s1, out1)" by (cases "sl_step e s")
  obtain s2 out2 where rn: "sl_run es s1 = (s2, out2)" by (cases "sl_run es s1")
  from Cons.prems st rn have "ApiDelete i \<in> set out1 \<or> ApiDelete i \<in> set out2"
    by auto
  then show ?case
  proof
    assume a: "ApiDelete i \<in> set out1"
    show ?thesis
    proof (cases e)
      case (Click j)
      with st a show ?thesis
        by (auto simp: handleDelete_def clicks_def split: if_splits)
    next
      case TimerFired
      with st a show ?thesis by simp
    next
      case (Settled j ok)
      with st a show ?thesis by simp
    qed
  next
    assume "ApiDelete i \<in> set out2"
    with rn have "ApiDelete i \<in> set (snd (sl_run es s1))" by simp
    from Cons.IH [OF this]
    have ih: "(deleteConfirm s1 = Some i \<and> 1 \<le> clicks i es) \<or> 2 \<le> clicks i es" .
    show ?thesis
    proof (cases e)
      case (Click j)
      with st ih show ?thesis
        by (auto simp: handleDelete_def clicks_def split: if_splits)
    next
      case TimerFired
      with st ih show ?thesis by (auto simp: clearConfirm_def clicks_def)
    next
      case (Settled j ok)
      with st ih show ?thesis
        by (auto simp: handleDelete_settled_def Let_def clicks_def split: if_splits)
    qed
  qed
qed

text \<open>
  C10. Two-step delete confirmation. An invocation of \<^verbatim>\<open>handleDelete(id)\<close> in a render
  whose confirmation flag is not that id only arms the flag and starts the 3000 ms timer
  that clears it: no request. The request for an id is issued exactly when the flag
  already equals that id, and then it is the only effect. Over any history of clicks,
  timer firings and settled requests from the freshly mounted component, a delete
  request for an id needs at least two clicks on that id.
\<close>

theorem handleDelete_two_step:
  "(deleteConfirm s \<noteq> Some i \<longrightarrow>
      handleDelete i s = (s\<lparr>deleteConfirm := Some i\<rparr>, [SetTimeoutClearConfirm 3000]))
   \<and> (ApiDelete j \<in> set (snd (handleDelete i s)) \<longleftrightarrow> deleteConfirm s = Some i \<and> j = i)
   \<and> (deleteConfirm s = Some i \<longrightarrow> snd (handleDelete i s) = [ApiDelete i])
   \<and> students (fst (handleDelete i s)) = students s
   \<and> (ApiDelete i \<in> set (snd (sl_run es (sl_init xs))) \<longrightarrow> 2 \<le> clicks i es)"
proof -
  have "ApiDelete i \<in> set (snd (sl_run es (sl_init xs))) \<longrightarrow> 2 \<le> clicks i es"
    using sl_run_request [of i es "sl_init xs"] by (auto simp: sl_init_def)
  then show ?thesis
    by (auto simp: handleDelete_def clearConfirm_def)
qed

theorem handleDelete_two_step_witness:
  "snd (sl_run [Click 7] (sl_init [\<lparr>sid = 7, is_active = True\<rparr>])) = [SetTimeoutClearConfirm 3000]
   \<and> snd (sl_run [Click 7, Click 7] (sl_init [\<lparr>sid = 7, is_active = True\<rparr>]))
       = [SetTimeoutClearConfirm 3000, ApiDelete 7]
   \<and> 2 \<le> clicks 7 [Click 7, Click 7]
   \<and> snd (sl_run [Click 7, TimerFired, Click 7] (sl_init [\<lparr>sid = 7, is_active = True\<rparr>]))
       = [SetTimeoutClearConfirm 3000, SetTimeoutClearConfirm 3000]"
  using handleDelete_two_step [of "sl_init [\<lparr>sid = 7, is_active = True\<rparr>]" 7 7 "[Click 7, Click 7]"
      "[\<lparr>sid = 7, is_active = True\<rparr>]"]
  by (simp add: sl_init_def handleDelete_def clearConfirm_def clicks_def)

end
